theory Spec2Isabelle
  imports Complex_Main "HOL-Library.Sublist"
begin

section \<open>Python values, exceptions and the session config\<close>

text \<open>
  Option values are dynamically typed in the source (\<^verbatim>\<open>GrabConfig\<close> maps option names to
  \<^verbatim>\<open>Any\<close>). The value view below is what a read of an option observes: containers are
  trees. Aliasing between containers is the subject of the store model in the section
  on \<^verbatim>\<open>copy_config\<close>.
\<close>

datatype pyval =
    PNone
  | PBool bool
  | PInt int
  | PStr string
  | PBytes string
  | PList "pyval list"
  | PDict "(pyval \<times> pyval) list"

text \<open>Python truthiness (\<^verbatim>\<open>bool(v)\<close>).\<close>

fun truthy :: "pyval \<Rightarrow> bool" where
  "truthy PNone = False"
| "truthy (PBool b) = b"
| "truthy (PInt n) = (n \<noteq> 0)"
| "truthy (PStr s) = (s \<noteq> [])"
| "truthy (PBytes s) = (s \<noteq> [])"
| "truthy (PList xs) = (xs \<noteq> [])"
| "truthy (PDict kvs) = (kvs \<noteq> [])"

text \<open>
  Exceptions. The first six are the classes of \<^verbatim>\<open>grab.error\<close> that derive from
  \<^verbatim>\<open>GrabError\<close>; \<open>PyException\<close> is any other Python exception, by class name
  (\<^verbatim>\<open>KeyError\<close>, \<^verbatim>\<open>TypeError\<close>, \<^verbatim>\<open>AssertionError\<close>, an unclassified library error).
\<close>

datatype error =
    GrabMisuseError
  | GrabTooManyRedirectsError
  | GrabTimeoutError
  | GrabConnectionError
  | GrabInvalidResponse
  | GrabInvalidUrl
  | PyException string

fun is_grab_error :: "error \<Rightarrow> bool" where
  "is_grab_error (PyException _) = False"
| "is_grab_error _ = True"

type_synonym config = "string \<rightharpoonup> pyval"

text \<open>
  \<^verbatim>\<open>default_config()\<close> of \<^verbatim>\<open>grab/base.py\<close>. The constructor then stores the result of
  \<^verbatim>\<open>common_headers()\<close> (randomised, browser-like headers) under \<^verbatim>\<open>common_headers\<close>; that
  value is the parameter \<open>ch\<close> of \<open>init_config\<close>.
\<close>

definition default_config :: config where
  "default_config =
     [ ''method'' \<mapsto> PNone,
       ''url'' \<mapsto> PNone,
       ''proxy'' \<mapsto> PNone,
       ''proxy_type'' \<mapsto> PNone,
       ''proxy_userpwd'' \<mapsto> PNone,
       ''headers'' \<mapsto> PNone,
       ''cookies'' \<mapsto> PNone,
       ''timeout'' \<mapsto> PNone,
       ''encoding'' \<mapsto> PNone,
       ''post'' \<mapsto> PNone,
       ''multipart_post'' \<mapsto> PNone,
       ''redirect_limit'' \<mapsto> PInt 10,
       ''follow_location'' \<mapsto> PBool True,
       ''document_type'' \<mapsto> PStr ''html'',
       ''reuse_cookies'' \<mapsto> PBool True,
       ''common_headers'' \<mapsto> PDict [],
       ''proxy_auto_change'' \<mapsto> PBool True,
       ''state'' \<mapsto> PDict [] ]"

definition init_config :: "pyval \<Rightarrow> config" where
  "init_config ch = default_config(''common_headers'' \<mapsto> ch)"

text \<open>
  \<^verbatim>\<open>urllib.parse.urljoin\<close> is a standard-library function, not code of the repository:
  it is the parameter \<open>urljoin\<close> wherever the source calls it. It takes and returns Python
  values and may raise (it raises \<^verbatim>\<open>TypeError\<close> on mixed \<^verbatim>\<open>str\<close>/\<^verbatim>\<open>bytes\<close> arguments).
\<close>

type_synonym urljoin_fn = "pyval \<Rightarrow> pyval \<Rightarrow> error + pyval"

text \<open>
  \<^verbatim>\<open>Grab.make_url_absolute(url)\<close> with the default \<^verbatim>\<open>resolve_base=False\<close>, the only way the
  request engine calls it: \<^verbatim>\<open>self.config["url"]\<close> raises \<^verbatim>\<open>KeyError\<close> on a config without
  the key.
\<close>

definition make_url_absolute :: "urljoin_fn \<Rightarrow> config \<Rightarrow> pyval \<Rightarrow> error + pyval" where
  "make_url_absolute urljoin cfg url =
     (case cfg ''url'' of
        None \<Rightarrow> Inl (PyException ''KeyError'')
      | Some base \<Rightarrow> if truthy base then urljoin base url else Inr url)"

text \<open>
  A Python \<^verbatim>\<open>dict\<close> read in order is a sequence of key/value pairs with distinct keys;
  \<^verbatim>\<open>d[k] = v\<close> replaces the value of an existing key in place and appends a new key.
  Keyword arguments are such a sequence of name/value pairs.
\<close>

fun dict_set :: "'k \<Rightarrow> 'v \<Rightarrow> ('k \<times> 'v) list \<Rightarrow> ('k \<times> 'v) list" where
  "dict_set k v [] = [(k, v)]"
| "dict_set k v ((k', v') # kws) =
     (if k' = k then (k, v) # kws else (k', v') # dict_set k v kws)"

type_synonym kwargs = "(string \<times> pyval) list"

text \<open>\<^verbatim>\<open>self.config.update(kwargs)\<close>: the pairs are stored in order.\<close>

fun config_update :: "config \<Rightarrow> kwargs \<Rightarrow> config" where
  "config_update cfg [] = cfg"
| "config_update cfg ((k, v) # kws) = config_update (cfg(k \<mapsto> v)) kws"

text \<open>
  \<^verbatim>\<open>Grab.setup(**kwargs)\<close>, here \<open>grab_setup\<close>. The result pairs the outcome with the config the session holds
  afterwards, also when the call raises.
  \<^verbatim>\<open>
    for key in kwargs:
        if key not in self.config.keys():
            raise GrabMisuseError("Unknown option: %s" % key)
    if "url" in kwargs and self.config.get("url"):
        kwargs["url"] = self.make_url_absolute(kwargs["url"])
    self.config.update(kwargs)
  \<close>
\<close>

definition grab_setup :: "urljoin_fn \<Rightarrow> kwargs \<Rightarrow> config \<Rightarrow> (error + unit) \<times> config" where
  "grab_setup urljoin kws cfg =
     (if \<exists>k \<in> set (map fst kws). cfg k = None then (Inl GrabMisuseError, cfg)
      else
        (case (map_of kws ''url'', cfg ''url'') of
           (Some u, Some base) \<Rightarrow>
             if truthy base then
               (case make_url_absolute urljoin cfg u of
                  Inl e \<Rightarrow> (Inl e, cfg)
                | Inr u' \<Rightarrow> (Inr (), config_update cfg (dict_set ''url'' u' kws)))
             else (Inr (), config_update cfg kws)
         | _ \<Rightarrow> (Inr (), config_update cfg kws)))"

section \<open>Properties of the option store\<close>

lemma config_update_other: "k \<notin> fst ` set kws \<Longrightarrow> config_update cfg kws k = cfg k"
  by (induction kws arbitrary: cfg) auto

lemma config_update_distinct:
  "distinct (map fst kws) \<Longrightarrow> (k, v) \<in> set kws \<Longrightarrow> config_update cfg kws k = Some v"
proof (induction kws arbitrary: cfg)
  case Nil
  then show ?case by simp
next
  case (Cons p kws)
  obtain k' v' where p: "p = (k', v')" by (cases p)
  show ?case
  proof (cases "(k, v) \<in> set kws")
    case True
    with Cons p show ?thesis by simp
  next
    case False
    with Cons.prems p have eq: "k' = k" "v' = v" by auto
    with Cons.prems p have "k \<notin> fst ` set kws" by auto
    then have "config_update (cfg(k \<mapsto> v)) kws k = (cfg(k \<mapsto> v)) k"
      by (rule config_update_other)
    with p eq show ?thesis by simp
  qed
qed

lemma dict_set_keys: "fst ` set (dict_set k v kws) = insert k (fst ` set kws)"
  by (induction kws) force+

lemma dict_set_distinct: "distinct (map fst kws) \<Longrightarrow> distinct (map fst (dict_set k v kws))"
  by (induction kws) (auto simp: dict_set_keys)

lemma dict_set_member: "(k, v) \<in> set (dict_set k v kws)"
  by (induction kws) auto

lemma dict_set_other:
  "k' \<noteq> k \<Longrightarrow> (k', v') \<in> set kws \<Longrightarrow> (k', v') \<in> set (dict_set k v kws)"
  by (induction kws) auto


lemma config_update_dict_set_url:
  assumes "distinct (map fst kws)" "(k, v) \<in> set kws"
  shows "config_update cfg (dict_set ''url'' u' kws) k = Some (if k = ''url'' then u' else v)"
proof (cases "k = ''url''")
  case True
  have "(''url'', u') \<in> set (dict_set ''url'' u' kws)" by (rule dict_set_member)
  with dict_set_distinct [OF assms(1)] True show ?thesis
    by (simp add: config_update_distinct)
next
  case False
  with assms(2) have "(k, v) \<in> set (dict_set ''url'' u' kws)" by (simp add: dict_set_other)
  with dict_set_distinct [OF assms(1)] False show ?thesis
    by (simp add: config_update_distinct)
qed

text \<open>
  A stand-in for \<^verbatim>\<open>urljoin\<close> on which examples are evaluated: every base is a page of
  \<^verbatim>\<open>http://host\<close>, a reference is an absolute URL or an absolute path.
\<close>

definition join_on_host :: urljoin_fn where
  "join_on_host base ref =
     (case (base, ref) of
        (PStr b, PStr r) \<Rightarrow> Inr (PStr (if prefix ''http://'' r then r else ''http://host'' @ r))
      | _ \<Rightarrow> Inl (PyException ''TypeError''))"

lemma grab_setup_unknown:
  "\<exists>k \<in> set (map fst kws). cfg k = None \<Longrightarrow>
     grab_setup urljoin kws cfg = (Inl GrabMisuseError, cfg)"
  by (simp add: grab_setup_def)

lemma grab_setup_known:
  assumes "\<not> (\<exists>k \<in> set (map fst kws). cfg k = None)"
  shows "grab_setup urljoin kws cfg =
     (case (map_of kws ''url'', cfg ''url'') of
        (Some u, Some base) \<Rightarrow>
          if truthy base then
            (case urljoin base u of
               Inl e \<Rightarrow> (Inl e, cfg)
             | Inr u' \<Rightarrow> (Inr (), config_update cfg (dict_set ''url'' u' kws)))
          else (Inr (), config_update cfg kws)
      | _ \<Rightarrow> (Inr (), config_update cfg kws))"
proof -
  have "grab_setup urljoin kws cfg =
     (case (map_of kws ''url'', cfg ''url'') of
        (Some u, Some base) \<Rightarrow>
          if truthy base then
            (case make_url_absolute urljoin cfg u of
               Inl e \<Rightarrow> (Inl e, cfg)
             | Inr u' \<Rightarrow> (Inr (), config_update cfg (dict_set ''url'' u' kws)))
          else (Inr (), config_update cfg kws)
      | _ \<Rightarrow> (Inr (), config_update cfg kws))"
    unfolding grab_setup_def using assms by (simp only: if_False)
  then show ?thesis
    by (simp add: make_url_absolute_def split: option.splits)
qed

text \<open>
  C8. \<^verbatim>\<open>setup()\<close> validates every supplied key before it stores anything. With a key
  that is not an option of the config it raises \<^verbatim>\<open>GrabMisuseError\<close> and the config is
  exactly what it was. With known keys only (and a \<^verbatim>\<open>url\<close> override that \<^verbatim>\<open>urljoin\<close>
  accepts) it succeeds, every override is stored (the \<^verbatim>\<open>url\<close> override after resolution
  against the configured URL, when there is one), and no other option changes.
\<close>

theorem setup_all_or_nothing:
  assumes "distinct (map fst kws)"
  shows "((\<exists>k \<in> set (map fst kws). cfg k = None) \<longrightarrow>
            grab_setup urljoin kws cfg = (Inl GrabMisuseError, cfg)) \<and>
         ((\<forall>k \<in> set (map fst kws). cfg k \<noteq> None) \<and>
          (\<forall>u base. map_of kws ''url'' = Some u \<and> cfg ''url'' = Some base \<and> truthy base \<longrightarrow>
                     (\<exists>u'. urljoin base u = Inr u')) \<longrightarrow>
            fst (grab_setup urljoin kws cfg) = Inr ()) \<and>
         (fst (grab_setup urljoin kws cfg) = Inr () \<longrightarrow>
            (\<forall>(k, v) \<in> set kws. k \<noteq> ''url'' \<longrightarrow> snd (grab_setup urljoin kws cfg) k = Some v) \<and>
            (\<forall>u. (''url'', u) \<in> set kws \<longrightarrow>
               (case cfg ''url'' of
                  None \<Rightarrow> False
                | Some base \<Rightarrow>
                    if truthy base
                    then \<exists>u'. urljoin base u = Inr u' \<and>
                              snd (grab_setup urljoin kws cfg) ''url'' = Some u'
                    else snd (grab_setup urljoin kws cfg) ''url'' = Some u)) \<and>
            (\<forall>k. k \<notin> set (map fst kws) \<longrightarrow> snd (grab_setup urljoin kws cfg) k = cfg k))"
proof (intro conjI impI)
  assume "\<exists>k \<in> set (map fst kws). cfg k = None"
  then show "grab_setup urljoin kws cfg = (Inl GrabMisuseError, cfg)"
    by (rule grab_setup_unknown)
next
  assume a: "(\<forall>k \<in> set (map fst kws). cfg k \<noteq> None) \<and>
     (\<forall>u base. map_of kws ''url'' = Some u \<and> cfg ''url'' = Some base \<and> truthy base \<longrightarrow>
                (\<exists>u'. urljoin base u = Inr u'))"
  then have known: "\<not> (\<exists>k \<in> set (map fst kws). cfg k = None)" by blast
  note eq = grab_setup_known [OF known, of urljoin]
  show "fst (grab_setup urljoin kws cfg) = Inr ()"
  proof (cases "map_of kws ''url''")
    case None
    with eq show ?thesis by simp
  next
    case (Some u)
    show ?thesis
    proof (cases "cfg ''url''")
      case None
      with eq Some show ?thesis by simp
    next
      case (Some base)
      show ?thesis
      proof (cases "truthy base")
        case False
        with eq Some \<open>map_of kws ''url'' = Some u\<close> show ?thesis
          by simp
      next
        case True
        with a Some \<open>map_of kws ''url'' = Some u\<close> obtain u' where "urljoin base u = Inr u'"
          by blast
        with eq True Some \<open>map_of kws ''url'' = Some u\<close> show ?thesis
          by simp
      qed
    qed
  qed
next
  assume ok: "fst (grab_setup urljoin kws cfg) = Inr ()"
  have known: "\<not> (\<exists>k \<in> set (map fst kws). cfg k = None)"
  proof
    assume "\<exists>k \<in> set (map fst kws). cfg k = None"
    then have "grab_setup urljoin kws cfg = (Inl GrabMisuseError, cfg)"
      by (rule grab_setup_unknown)
    with ok show False by simp
  qed
  note eq = grab_setup_known [OF known, of urljoin]
  let ?cfg' = "snd (grab_setup urljoin kws cfg)"
  have cases: "?cfg' = config_update cfg kws \<and>
      (map_of kws ''url'' = None \<or> (\<exists>base. cfg ''url'' = Some base \<and> \<not> truthy base)) \<or>
    (\<exists>u base u'. map_of kws ''url'' = Some u \<and> cfg ''url'' = Some base \<and> truthy base \<and>
        urljoin base u = Inr u' \<and> ?cfg' = config_update cfg (dict_set ''url'' u' kws))"
  proof (cases "map_of kws ''url''")
    case None
    with eq show ?thesis by simp
  next
    case (Some u)
    then have "(''url'', u) \<in> set kws" by (rule map_of_SomeD)
    with known obtain base where base: "cfg ''url'' = Some base" by force
    show ?thesis
    proof (cases "truthy base")
      case False
      with eq Some base show ?thesis by simp
    next
      case True
      with ok eq Some base show ?thesis
        by (auto split: sum.splits)
    qed
  qed
  show "\<forall>(k, v) \<in> set kws. k \<noteq> ''url'' \<longrightarrow> ?cfg' k = Some v"
    using cases assms
    by (auto simp: config_update_distinct config_update_dict_set_url)
  show "\<forall>k. k \<notin> set (map fst kws) \<longrightarrow> ?cfg' k = cfg k"
  proof (intro allI impI)
    fix k assume k: "k \<notin> set (map fst kws)"
    from cases show "?cfg' k = cfg k"
    proof (elim disjE exE conjE)
      fix u base u'
      assume u: "map_of kws ''url'' = Some u"
        and eq: "?cfg' = config_update cfg (dict_set ''url'' u' kws)"
      from u have "(''url'', u) \<in> set kws" by (rule map_of_SomeD)
      then have "''url'' \<in> fst ` set kws" by force
      with k have "k \<notin> fst ` set (dict_set ''url'' u' kws)"
        by (auto simp: dict_set_keys)
      with eq show ?thesis by (simp add: config_update_other)
    qed (use k in \<open>simp_all add: config_update_other\<close>)
  qed
  show "\<forall>u. (''url'', u) \<in> set kws \<longrightarrow>
          (case cfg ''url'' of
             None \<Rightarrow> False
           | Some base \<Rightarrow>
               if truthy base
               then \<exists>u'. urljoin base u = Inr u' \<and> ?cfg' ''url'' = Some u'
               else ?cfg' ''url'' = Some u)"
  proof (intro allI impI)
    fix u assume u: "(''url'', u) \<in> set kws"
    with assms have m: "map_of kws ''url'' = Some u" by simp
    from u known obtain base where base: "cfg ''url'' = Some base" by force
    from cases m base u assms show "case cfg ''url'' of
             None \<Rightarrow> False
           | Some base \<Rightarrow>
               if truthy base
               then \<exists>u'. urljoin base u = Inr u' \<and> ?cfg' ''url'' = Some u'
               else ?cfg' ''url'' = Some u"
      by (auto simp: config_update_distinct config_update_dict_set_url)
  qed
qed

theorem setup_all_or_nothing_witness:
  "grab_setup join_on_host [(''timeout'', PInt 5), (''bogus'', PInt 1)]
       (default_config(''url'' \<mapsto> PStr ''http://host/a''))
     = (Inl GrabMisuseError, default_config(''url'' \<mapsto> PStr ''http://host/a'')) \<and>
   fst (grab_setup join_on_host [(''timeout'', PInt 5), (''url'', PStr ''/b'')]
       (default_config(''url'' \<mapsto> PStr ''http://host/a''))) = Inr () \<and>
   snd (grab_setup join_on_host [(''timeout'', PInt 5), (''url'', PStr ''/b'')]
       (default_config(''url'' \<mapsto> PStr ''http://host/a''))) ''timeout'' = Some (PInt 5) \<and>
   snd (grab_setup join_on_host [(''timeout'', PInt 5), (''url'', PStr ''/b'')]
       (default_config(''url'' \<mapsto> PStr ''http://host/a''))) ''url'' = Some (PStr ''http://host/b'') \<and>
   snd (grab_setup join_on_host [(''timeout'', PInt 5), (''url'', PStr ''/b'')]
       (default_config(''url'' \<mapsto> PStr ''http://host/a''))) ''post'' = Some PNone"
  using
    setup_all_or_nothing [of "[(''timeout'', PInt 5), (''bogus'', PInt 1)]"
      "default_config(''url'' \<mapsto> PStr ''http://host/a'')" join_on_host]
    setup_all_or_nothing [of "[(''timeout'', PInt 5), (''url'', PStr ''/b'')]"
      "default_config(''url'' \<mapsto> PStr ''http://host/a'')" join_on_host]
  by (simp add: default_config_def join_on_host_def)


section \<open>The transport's body read loop\<close>

text \<open>
  \<^verbatim>\<open>grab/transport.py\<close>. Bytes are 8-bit characters. The fields of \<^verbatim>\<open>Request\<close> that
  \<^verbatim>\<open>read_with_timeout\<close> reads: \<^verbatim>\<open>config_nobody\<close>, \<^verbatim>\<open>config_body_maxsize\<close> (a size, or
  \<^verbatim>\<open>None\<close>), \<^verbatim>\<open>timeout\<close>, \<^verbatim>\<open>op_started\<close>, and the \<^verbatim>\<open>response_path\<close> that \<^verbatim>\<open>prepare_response\<close>
  consults. Times are exact numbers of seconds.
\<close>

type_synonym bytes = "char list"









text \<open>
  Where \<^verbatim>\<open>prepare_response\<close> puts what \<^verbatim>\<open>read_with_timeout\<close> returns: into the file at
  \<^verbatim>\<open>response_path\<close> when the request has one (the Document then holds the path), and into
  the Document's in-memory body otherwise. \<open>files\<close> maps a path to the content written.
\<close>

record document_body =
  body_path :: "string option"
  body :: "bytes option"



subsection \<open>The body cap\<close>








section \<open>Cookies\<close>

text \<open>
  Modelled from the spec: the cookie manager (\<^verbatim>\<open>grab.cookie.CookieManager\<close>, a wrapper of
  the standard library's \<^verbatim>\<open>CookieJar\<close>) is not among the source files. The spec gives the
  jar as a "set of cookies keyed by (name, domain, path)" that "supports insertion,
  lookup-for-request (matches domain/path/secure/expiry), and bulk import/export as a flat
  list", and a cookie record as "(name, value, domain, path, expiry, secure flag)". The jar
  is the sequence of its cookies; inserting a cookie replaces the cookie of the same key
  where it stands and appends a cookie with a new key.
\<close>

record cookie =
  name :: string
  "value" :: string
  domain :: string
  path :: string
  expires :: "int option"
  secure :: bool

type_synonym cookiejar = "cookie list"

definition cookie_key :: "cookie \<Rightarrow> string \<times> string \<times> string" where
  "cookie_key c = (name c, domain c, path c)"

definition set_cookie :: "cookie \<Rightarrow> cookiejar \<Rightarrow> cookiejar" where
  "set_cookie c jar =
     (if cookie_key c \<in> set (map cookie_key jar)
      then map (\<lambda>c'. if cookie_key c' = cookie_key c then c else c') jar
      else jar @ [c])"

text \<open>
  \<^verbatim>\<open>CookieManager.from_cookie_list(clist)\<close> (bulk import) and \<^verbatim>\<open>CookieManager.update(cookies)\<close>
  (the spec's \<^verbatim>\<open>absorb\<close>) insert the given cookies one by one, in order; bulk export,
  \<^verbatim>\<open>list(cookies.cookiejar)\<close>, is the jar's sequence.
\<close>

definition update_cookies :: "cookiejar \<Rightarrow> cookie list \<Rightarrow> cookiejar" where
  "update_cookies jar cs = fold set_cookie cs jar"

definition from_cookie_list :: "cookie list \<Rightarrow> cookiejar" where
  "from_cookie_list clist = update_cookies [] clist"

section \<open>The request engine of grab/base.py\<close>

subsection \<open>Documents\<close>

text \<open>
  The Document class is an external collaborator ("thin data holder"). The engine reads
  \<^verbatim>\<open>doc.code\<close>, \<^verbatim>\<open>doc.headers["Location"]\<close> and \<^verbatim>\<open>doc.cookies\<close> and writes \<^verbatim>\<open>doc.timestamp\<close>.
  \<^verbatim>\<open>doc.headers\<close> is an \<^verbatim>\<open>email.message.Message\<close> or \<^verbatim>\<open>None\<close>: reading a header by name
  compares names without regard to ASCII case, returns the first match, and \<^verbatim>\<open>None\<close> when
  there is none.
\<close>

record document = document_body +
  code :: "int option"
  headers :: "(string \<times> string) list option"
  url :: pyval
  doc_cookies :: cookiejar
  timestamp :: "real option"

definition ascii_lower :: "char \<Rightarrow> char" where
  "ascii_lower c =
     (if (65::nat) \<le> of_char c \<and> of_char c \<le> (90::nat)
      then char_of (of_char c + (32::nat)) else c)"

fun msg_get :: "(string \<times> string) list \<Rightarrow> string \<Rightarrow> string option" where
  "msg_get [] n = None"
| "msg_get ((k, v) # hs) n =
     (if map ascii_lower k = map ascii_lower n then Some v else msg_get hs n)"

subsection \<open>The session and what surrounds it\<close>

text \<open>
  A proxy server of the proxy list (an external collaborator): \<^verbatim>\<open>proxy_type\<close>,
  \<^verbatim>\<open>get_address()\<close> and \<^verbatim>\<open>get_userpwd()\<close>.
\<close>

record proxy =
  proxy_type :: pyval
  address :: pyval
  userpwd :: pyval

text \<open>
  One attempt, as the transport dispatches it: the request method the engine detected,
  and the config and the cookie jar the request was built from.
\<close>

record attempt =
  a_method :: string
  a_config :: config
  a_cookies :: cookiejar

text \<open>
  What an attempt comes to: \<^verbatim>\<open>transport.request()\<close> raises; or it returns and
  \<^verbatim>\<open>transport.prepare_response()\<close> raises while the response is read (inside
  \<^verbatim>\<open>wrap_transport_error\<close>); or a Document is produced.
\<close>

datatype outcome =
    RequestFails error
  | ResponseFails error
  | Responds document

text \<open>
  The transport of this version of the engine (\<^verbatim>\<open>process_config(config, cookies)\<close>,
  \<^verbatim>\<open>detect_request_method(config)\<close>, \<^verbatim>\<open>request()\<close>, \<^verbatim>\<open>prepare_response(config, ...)\<close>) is not
  among the source files, and the network, the random choice of a proxy and the clock are
  outside the program. They are parameters:
  \<^item> \<open>urljoin\<close>: the standard library's URL join;
  \<^item> \<open>detect_request_method\<close>: the method the transport picks for a config;
  \<^item> \<open>process_config\<close>: building the request from config and cookie jar; it raises, or
    returns the jar with the cookies it has set. It reads the config and stores no option;
  \<^item> \<open>server\<close>: what the latest attempt comes to, given all attempts dispatched so far
    (the latest is the last);
  \<^item> \<open>random_index\<close>: the \<open>k\<close>-th random number drawn;
  \<^item> \<open>utcnow\<close>: the time at which the \<open>k\<close>-th attempt's result is processed.
\<close>

record env =
  urljoin :: urljoin_fn
  detect_request_method :: "config \<Rightarrow> string"
  process_config :: "config \<Rightarrow> cookiejar \<Rightarrow> error + cookiejar"
  server :: "attempt list \<Rightarrow> outcome"
  random_index :: "nat \<Rightarrow> nat"
  utcnow :: "nat \<Rightarrow> real"

text \<open>
  A \<^verbatim>\<open>Grab\<close> instance, with the state of its transport (\<open>prepared\<close>, the request built by
  \<^verbatim>\<open>process_config\<close>; \<open>received\<close>, the outcome \<^verbatim>\<open>request()\<close> left to \<^verbatim>\<open>prepare_response\<close>)
  and the world it acts on (\<open>dispatched\<close>, the attempts sent so far; \<open>draws\<close>, how many
  random numbers were drawn).
\<close>

record grab =
  config :: config
  cookies :: cookiejar
  doc :: "document option"
  request_method :: "string option"
  proxylist :: "proxy list"
  prepared :: "attempt option"
  received :: "outcome option"
  dispatched :: "attempt list"
  draws :: nat

subsection \<open>The methods\<close>

text \<open>\<^verbatim>\<open>Grab.reset()\<close>: \<^verbatim>\<open>self.request_method = None\<close> and \<^verbatim>\<open>self.transport.reset()\<close>.\<close>

definition reset :: "grab \<Rightarrow> grab" where
  "reset s = s\<lparr>request_method := None, prepared := None, received := None\<rparr>"

text \<open>
  \<^verbatim>\<open>
    def reset_temporary_options(self) -> None:
        self.config["post"] = None
        self.config["multipart_post"] = None
        self.config["method"] = None
  \<close>
\<close>

definition reset_temporary_options :: "grab \<Rightarrow> grab" where
  "reset_temporary_options s =
     s\<lparr>config := (config s)(''post'' \<mapsto> PNone, ''multipart_post'' \<mapsto> PNone, ''method'' \<mapsto> PNone)\<rparr>"

text \<open>
  \<^verbatim>\<open>Grab.change_proxy(random=True)\<close>, as \<^verbatim>\<open>prepare_request\<close> calls it:
  \<^verbatim>\<open>
    if self.proxylist.size():
        proxy = self.proxylist.get_random_server()
        if proxy.proxy_type is None:
            raise GrabMisuseError("Could not use proxy without defined proxy type")
        self.setup(proxy=proxy.get_address(), proxy_userpwd=proxy.get_userpwd(),
                   proxy_type=proxy.proxy_type)
  \<close>
\<close>

definition change_proxy :: "env \<Rightarrow> grab \<Rightarrow> (error + unit) \<times> grab" where
  "change_proxy E s =
     (if proxylist s \<noteq> [] then
        let p = proxylist s ! (random_index E (draws s) mod length (proxylist s));
            s1 = s\<lparr>draws := Suc (draws s)\<rparr>
        in if proxy_type p = PNone then (Inl GrabMisuseError, s1)
           else
             (case grab_setup (urljoin E)
                     [(''proxy'', address p), (''proxy_userpwd'', userpwd p),
                      (''proxy_type'', proxy_type p)] (config s1) of
                (r, cfg) \<Rightarrow> (r, s1\<lparr>config := cfg\<rparr>))
      else (Inr (), s))"

text \<open>
  Statements in sequence: the next statement runs on the state the previous one left,
  unless that one raised.
\<close>

definition and_then ::
  "(error + 'a) \<times> 's \<Rightarrow> ('s \<Rightarrow> (error + 'b) \<times> 's) \<Rightarrow> (error + 'b) \<times> 's" where
  "and_then r f = (case r of (Inl e, s) \<Rightarrow> (Inl e, s) | (Inr _, s) \<Rightarrow> f s)"

text \<open>
  The statements of \<^verbatim>\<open>prepare_request\<close>, one definition each:
  \<^verbatim>\<open>
    def prepare_request(self, **kwargs):
        self.reset()
        if kwargs:
            self.setup(**kwargs)
        if self.proxylist.size() and self.config["proxy_auto_change"]:
            self.change_proxy()
        self.request_method = self.transport.detect_request_method(self.config)
        self.transport.process_config(self.config, self.cookies)
  \<close>
\<close>

definition setup_kwargs :: "env \<Rightarrow> kwargs \<Rightarrow> grab \<Rightarrow> (error + unit) \<times> grab" where
  "setup_kwargs E kws s =
     (if kws \<noteq> [] then
        (case grab_setup (urljoin E) kws (config s) of (r, cfg) \<Rightarrow> (r, s\<lparr>config := cfg\<rparr>))
      else (Inr (), s))"

definition auto_change_proxy :: "env \<Rightarrow> grab \<Rightarrow> (error + unit) \<times> grab" where
  "auto_change_proxy E s =
     (if proxylist s \<noteq> [] then
        (case config s ''proxy_auto_change'' of
           None \<Rightarrow> (Inl (PyException ''KeyError''), s)
         | Some v \<Rightarrow> if truthy v then change_proxy E s else (Inr (), s))
      else (Inr (), s))"

definition build_request :: "env \<Rightarrow> grab \<Rightarrow> (error + unit) \<times> grab" where
  "build_request E s =
     (let method = detect_request_method E (config s);
          s1 = s\<lparr>request_method := Some method\<rparr>
      in case process_config E (config s1) (cookies s1) of
           Inl e \<Rightarrow> (Inl e, s1)
         | Inr jar \<Rightarrow>
             (Inr (),
              s1\<lparr>cookies := jar,
                 prepared := Some \<lparr>a_method = method, a_config = config s1, a_cookies = jar\<rparr>\<rparr>))"

definition prepare_request :: "env \<Rightarrow> kwargs \<Rightarrow> grab \<Rightarrow> (error + unit) \<times> grab" where
  "prepare_request E kws s =
     and_then (and_then (setup_kwargs E kws (reset s)) (auto_change_proxy E)) (build_request E)"

text \<open>
  \<^verbatim>\<open>self.transport.request()\<close>: the prepared request is dispatched and the world answers.
  Without a prepared request the call fails on \<^verbatim>\<open>None\<close>.
\<close>

definition transport_request :: "env \<Rightarrow> grab \<Rightarrow> (error + unit) \<times> grab" where
  "transport_request E s =
     (case prepared s of
        None \<Rightarrow> (Inl (PyException ''AttributeError''), s)
      | Some a \<Rightarrow>
          let s1 = s\<lparr>dispatched := dispatched s @ [a]\<rparr> in
          (case server E (dispatched s1) of
             RequestFails e \<Rightarrow> (Inl e, s1)
           | out \<Rightarrow> (Inr (), s1\<lparr>received := Some out\<rparr>)))"

text \<open>\<^verbatim>\<open>self.transport.prepare_response(self.config, ...)\<close>.\<close>

definition prepare_response :: "grab \<Rightarrow> error + document" where
  "prepare_response s =
     (case received s of
        Some (Responds d) \<Rightarrow> Inr d
      | Some (ResponseFails e) \<Rightarrow> Inl e
      | _ \<Rightarrow> Inl (PyException ''AttributeError''))"

text \<open>
  \<^verbatim>\<open>
    def process_request_result(self) -> Document:
        now = datetime.utcnow()
        self.reset_temporary_options()
        self.doc = self.transport.prepare_response(self.config, ...)
        if self.config["reuse_cookies"]:
            self.cookies.update(self.doc.cookies)
        self.doc.timestamp = now
        return self.doc
  \<close>
\<close>

definition process_request_result :: "env \<Rightarrow> grab \<Rightarrow> (error + document) \<times> grab" where
  "process_request_result E s =
     (let now = utcnow E (length (dispatched s));
          s1 = reset_temporary_options s
      in case prepare_response s1 of
           Inl e \<Rightarrow> (Inl e, s1)
         | Inr d \<Rightarrow>
             let s2 = s1\<lparr>doc := Some d\<rparr> in
             (case config s2 ''reuse_cookies'' of
                None \<Rightarrow> (Inl (PyException ''KeyError''), s2)
              | Some v \<Rightarrow>
                  let s3 = (if truthy v
                            then s2\<lparr>cookies := update_cookies (cookies s2) (doc_cookies d)\<rparr>
                            else s2);
                      d' = d\<lparr>timestamp := Some now\<rparr>
                  in (Inr d', s3\<lparr>doc := Some d'\<rparr>)))"

text \<open>
  \<^verbatim>\<open>
    def find_redirect_url(self, doc: Document) -> None | str:
        assert doc.headers is not None
        if (
            self.config["follow_location"]
            and doc.code in {301, 302, 303, 307, 308}
            and doc.headers["Location"]
        ):
            return cast(str, doc.headers["Location"])
        return None
  \<close>
\<close>

definition find_redirect_url :: "config \<Rightarrow> document \<Rightarrow> error + string option" where
  "find_redirect_url cfg d =
     (case headers d of
        None \<Rightarrow> Inl (PyException ''AssertionError'')
      | Some hs \<Rightarrow>
          (case cfg ''follow_location'' of
             None \<Rightarrow> Inl (PyException ''KeyError'')
           | Some fl \<Rightarrow>
               if truthy fl \<and> code d \<in> Some ` {301, 302, 303, 307, 308}
                  \<and> (case msg_get hs ''Location'' of None \<Rightarrow> False | Some l \<Rightarrow> l \<noteq> [])
               then Inr (msg_get hs ''Location'')
               else Inr None))"

text \<open>
  \<^verbatim>\<open>redir_count > self.config["redirect_limit"]\<close>: an \<^verbatim>\<open>int\<close> compares with an \<^verbatim>\<open>int\<close> or a
  \<^verbatim>\<open>bool\<close>; with any other value of this model the comparison raises \<^verbatim>\<open>TypeError\<close>.
\<close>

fun int_gt :: "int \<Rightarrow> pyval \<Rightarrow> error + bool" where
  "int_gt n (PInt m) = Inr (n > m)"
| "int_gt n (PBool b) = Inr (n > (if b then 1 else 0))"
| "int_gt n _ = Inl (PyException ''TypeError'')"


subsection \<open>What the methods leave unchanged\<close>

lemma grab_setup_other:
  "k \<notin> fst ` set kws \<Longrightarrow> snd (grab_setup uj kws cfg) k = cfg k"
proof (cases "\<exists>k \<in> set (map fst kws). cfg k = None")
  case True
  then show ?thesis by (simp add: grab_setup_unknown)
next
  case False
  assume k: "k \<notin> fst ` set kws"
  have "k \<notin> fst ` set (dict_set ''url'' u' kws)" if "map_of kws ''url'' = Some u" for u u'
  proof -
    from that have "(''url'', u) \<in> set kws" by (rule map_of_SomeD)
    then have "''url'' \<in> fst ` set kws" by force
    with k show ?thesis by (auto simp: dict_set_keys)
  qed
  with k show ?thesis
    by (auto simp: grab_setup_known [OF False] config_update_other split: option.splits sum.splits)
qed

lemma change_proxy_other:
  assumes "k \<notin> {''proxy'', ''proxy_userpwd'', ''proxy_type''}"
  shows "config (snd (change_proxy E s)) k = config s k"
proof -
  have "snd (grab_setup uj [(''proxy'', a), (''proxy_userpwd'', b), (''proxy_type'', c)] cfg) k
          = cfg k" for uj a b c cfg
    using assms by (intro grab_setup_other) simp
  then have "grab_setup uj [(''proxy'', a), (''proxy_userpwd'', b), (''proxy_type'', c)] cfg
          = (r, cfg') \<Longrightarrow> cfg' k = cfg k" for uj a b c cfg r cfg'
    by (metis snd_conv)
  then show ?thesis
    by (auto simp: change_proxy_def Let_def split: prod.splits)
qed

lemma and_then_frame:
  assumes "P (snd r)" "\<And>s. P s \<Longrightarrow> P (snd (f s))"
  shows "P (snd (and_then r f))"
  using assms by (cases r) (auto simp: and_then_def split: sum.splits)

lemma setup_kwargs_other:
  "k \<notin> fst ` set kws \<Longrightarrow> config (snd (setup_kwargs E kws s)) k = config s k"
  using grab_setup_other [of k kws "urljoin E" "config s"]
  by (auto simp: setup_kwargs_def split: prod.splits)

lemma auto_change_proxy_other:
  "k \<notin> {''proxy'', ''proxy_userpwd'', ''proxy_type''} \<Longrightarrow>
     config (snd (auto_change_proxy E s)) k = config s k"
  by (simp add: auto_change_proxy_def change_proxy_other split: option.splits)

lemma build_request_config: "config (snd (build_request E s)) = config s"
  by (simp add: build_request_def Let_def split: sum.splits)

lemma prepare_request_other:
  assumes "k \<notin> fst ` set kws" "k \<notin> {''proxy'', ''proxy_userpwd'', ''proxy_type''}"
  shows "config (snd (prepare_request E kws s)) k = config s k"
  unfolding prepare_request_def
proof (intro and_then_frame [where P = "\<lambda>s' :: grab. config s' k = config s k"])
  show "config (snd (setup_kwargs E kws (reset s))) k = config s k"
    using assms(1) by (simp add: setup_kwargs_other reset_def)
next
  fix s' :: grab assume "config s' k = config s k"
  then show "config (snd (auto_change_proxy E s')) k = config s k"
    using assms(2) by (simp add: auto_change_proxy_other)
next
  fix s' :: grab assume "config s' k = config s k"
  then show "config (snd (build_request E s')) k = config s k"
    by (simp add: build_request_config)
qed


lemma transport_request_config: "config (snd (transport_request E s)) = config s"
  by (simp add: transport_request_def Let_def split: option.splits outcome.splits)

lemma process_request_result_other:
  "k \<notin> {''post'', ''multipart_post'', ''method''} \<Longrightarrow>
     config (snd (process_request_result E s)) k = config s k"
  by (simp add: process_request_result_def Let_def reset_temporary_options_def
      split: sum.splits option.splits)

subsection \<open>The redirect loop\<close>

text \<open>
  The redirect limit as the comparison \<^verbatim>\<open>redir_count > self.config["redirect_limit"]\<close> reads
  it; it bounds the number of iterations of the loop.
\<close>

definition limit_of :: "config \<Rightarrow> int" where
  "limit_of cfg =
     (case cfg ''redirect_limit'' of
        Some (PInt n) \<Rightarrow> n
      | Some (PBool b) \<Rightarrow> (if b then 1 else 0)
      | _ \<Rightarrow> 0)"

lemma int_gt_False_limit:
  "cfg ''redirect_limit'' = Some limit \<Longrightarrow> int_gt n limit = Inr False \<Longrightarrow> n \<le> limit_of cfg"
  by (cases limit) (auto simp: limit_of_def)

lemma request_loop_measure:
  assumes tr: "(r1, s1) = transport_request E s"
    and pr: "(r2, s2) = process_request_result E s1"
    and limit: "config s2 ''redirect_limit'' = Some limit"
    and gt: "int_gt (int (Suc redir_count)) limit = Inr False"
    and prep: "(r3, s3) = prepare_request E [(''url'', u)] s2"
  shows "nat (limit_of (config s3) + 1 - int (Suc redir_count))
           < nat (limit_of (config s) + 1 - int redir_count)"
proof -
  have "s1 = snd (transport_request E s)" using tr by (metis snd_conv)
  then have c1: "config s1 = config s" by (simp add: transport_request_config)
  have "s2 = snd (process_request_result E s1)" using pr by (metis snd_conv)
  then have c2: "config s2 ''redirect_limit'' = config s1 ''redirect_limit''"
    by (simp add: process_request_result_other)
  have "s3 = snd (prepare_request E [(''url'', u)] s2)" using prep by (metis snd_conv)
  then have c3: "config s3 ''redirect_limit'' = config s2 ''redirect_limit''"
    by (simp add: prepare_request_other)
  from c1 c2 c3 have same: "limit_of (config s3) = limit_of (config s)"
    "limit_of (config s2) = limit_of (config s)"
    by (simp_all add: limit_of_def)
  from limit gt have "int (Suc redir_count) \<le> limit_of (config s2)"
    by (rule int_gt_False_limit)
  with same show ?thesis by simp
qed

text \<open>
  The \<^verbatim>\<open>while True\<close> loop of \<^verbatim>\<open>Grab.request\<close>; \<^verbatim>\<open>log_request()\<close> only writes to the logger.
  \<^verbatim>\<open>
    while True:
        self.log_request()
        try:
            self.transport.request()
        except GrabError:
            self.reset_temporary_options()
            raise
        else:
            with self.transport.wrap_transport_error():
                doc = self.process_request_result()
            redir_url = self.find_redirect_url(doc)
            if redir_url is not None:
                redir_count += 1
                if redir_count > self.config["redirect_limit"]:
                    raise GrabTooManyRedirectsError()
                self.prepare_request(url=self.make_url_absolute(redir_url))
                continue
            return doc
  \<close>
\<close>

function request_loop :: "env \<Rightarrow> nat \<Rightarrow> grab \<Rightarrow> (error + document) \<times> grab" where
  "request_loop E redir_count s =
     (case transport_request E s of
        (Inl e, s1) \<Rightarrow>
          if is_grab_error e then (Inl e, reset_temporary_options s1) else (Inl e, s1)
      | (Inr _, s1) \<Rightarrow>
          (case process_request_result E s1 of
             (Inl e, s2) \<Rightarrow> (Inl e, s2)
           | (Inr d, s2) \<Rightarrow>
               (case find_redirect_url (config s2) d of
                  Inl e \<Rightarrow> (Inl e, s2)
                | Inr None \<Rightarrow> (Inr d, s2)
                | Inr (Some redir_url) \<Rightarrow>
                    (case config s2 ''redirect_limit'' of
                       None \<Rightarrow> (Inl (PyException ''KeyError''), s2)
                     | Some limit \<Rightarrow>
                         (case int_gt (int (Suc redir_count)) limit of
                            Inl e \<Rightarrow> (Inl e, s2)
                          | Inr exceeded \<Rightarrow>
                              if exceeded then (Inl GrabTooManyRedirectsError, s2)
                              else
                                (case make_url_absolute (urljoin E) (config s2)
                                        (PStr redir_url) of
                                   Inl e \<Rightarrow> (Inl e, s2)
                                 | Inr u \<Rightarrow>
                                     (case prepare_request E [(''url'', u)] s2 of
                                        (Inl e, s3) \<Rightarrow> (Inl e, s3)
                                      | (Inr _, s3) \<Rightarrow>
                                          request_loop E (Suc redir_count) s3)))))))"
  by pat_completeness auto
termination
  apply (relation "measure (\<lambda>(E, redir_count, s). nat (limit_of (config s) + 1 - int redir_count))")
   apply simp
  apply (simp only: in_measure prod.case)
  apply (rule request_loop_measure; assumption)
  done

declare request_loop.simps [simp del]


text \<open>
  \<^verbatim>\<open>
    def request(self, url: None | str = None, **kwargs: Any) -> Document:
        if url is not None:
            kwargs["url"] = url
        self.prepare_request(**kwargs)
        redir_count = 0
        while True: ...
  \<close>
\<close>

definition grab_request ::
  "env \<Rightarrow> pyval \<Rightarrow> kwargs \<Rightarrow> grab \<Rightarrow> (error + document) \<times> grab" where
  "grab_request E url_arg kwargs s =
     (let kws = (if url_arg \<noteq> PNone then dict_set ''url'' url_arg kwargs else kwargs)
      in case prepare_request E kws s of
           (Inl e, s1) \<Rightarrow> (Inl e, s1)
         | (Inr _, s1) \<Rightarrow> request_loop E 0 s1)"


subsection \<open>One iteration of the loop, and induction over the redirects followed\<close>

lemma request_loop_unfold:
  "(\<exists>e s1. transport_request E s = (Inl e, s1) \<and>
       request_loop E rc s = (Inl e, if is_grab_error e then reset_temporary_options s1 else s1)) \<or>
   (\<exists>x s1 r2 s2 r sf. transport_request E s = (Inr x, s1) \<and>
       process_request_result E s1 = (r2, s2) \<and> request_loop E rc s = (r, sf) \<and>
       (sf = s2 \<or> (\<exists>u e. sf = snd (prepare_request E [(''url'', u)] s2) \<and> r = Inl e)) \<and>
       (\<forall>d. r = Inr d \<longrightarrow> r2 = Inr d \<and> sf = s2 \<and> find_redirect_url (config s2) d = Inr None)) \<or>
   (\<exists>x s1 d s2 loc limit u y s3. transport_request E s = (Inr x, s1) \<and>
       process_request_result E s1 = (Inr d, s2) \<and>
       find_redirect_url (config s2) d = Inr (Some loc) \<and>
       config s2 ''redirect_limit'' = Some limit \<and>
       int_gt (int (Suc rc)) limit = Inr False \<and>
       make_url_absolute (urljoin E) (config s2) (PStr loc) = Inr u \<and>
       prepare_request E [(''url'', u)] s2 = (Inr y, s3) \<and>
       request_loop E rc s = request_loop E (Suc rc) s3)"
proof (cases "transport_request E s")
  case (Pair r1 s1)
  show ?thesis
  proof (cases r1)
    case (Inl e)
    with Pair show ?thesis by (simp add: request_loop.simps [of E rc s])
  next
    case (Inr x)
    note r1 = this
    obtain r2 s2 where pr: "process_request_result E s1 = (r2, s2)"
      by (cases "process_request_result E s1")
    show ?thesis
    proof (cases r2)
      case (Inl e)
      with Pair r1 pr show ?thesis by (simp add: request_loop.simps [of E rc s])
    next
      case (Inr d)
      note r2 = this
      show ?thesis
      proof (cases "find_redirect_url (config s2) d")
        case (Inl e)
        with Pair r1 pr r2 show ?thesis by (simp add: request_loop.simps [of E rc s])
      next
        case (Inr ro)
        note fr = this
        show ?thesis
        proof (cases ro)
          case None
          with Pair r1 pr r2 fr show ?thesis by (simp add: request_loop.simps [of E rc s])
        next
          case (Some loc)
          note ro = this
          show ?thesis
          proof (cases "config s2 ''redirect_limit''")
            case None
            with Pair r1 pr r2 fr ro show ?thesis by (simp add: request_loop.simps [of E rc s])
          next
            case (Some limit)
            note lm = this
            show ?thesis
            proof (cases "int_gt (int (Suc rc)) limit")
              case (Inl e)
              with Pair r1 pr r2 fr ro lm show ?thesis
                by (simp add: request_loop.simps [of E rc s])
            next
              case (Inr exceeded)
              note ex = this
              show ?thesis
              proof (cases exceeded)
                case True
                with Pair r1 pr r2 fr ro lm ex show ?thesis
                  by (simp add: request_loop.simps [of E rc s])
              next
                case False
                note nex = this
                show ?thesis
                proof (cases "make_url_absolute (urljoin E) (config s2) (PStr loc)")
                  case (Inl e)
                  with Pair r1 pr r2 fr ro lm ex nex show ?thesis
                    by (simp add: request_loop.simps [of E rc s])
                next
                  case (Inr u)
                  note mu = this
                  obtain r3 s3 where pp: "prepare_request E [(''url'', u)] s2 = (r3, s3)"
                    by (cases "prepare_request E [(''url'', u)] s2")
                  show ?thesis
                  proof (cases r3)
                    case (Inl e)
                    have sf: "s3 = snd (prepare_request E [(''url'', u)] s2)" using pp by simp
                    have res: "request_loop E rc s = (Inl e, s3)"
                      using Inl Pair r1 pr r2 fr ro lm ex nex mu pp
                      by (simp add: request_loop.simps [of E rc s])
                    have "\<exists>x s1 r2 s2 r sf. transport_request E s = (Inr x, s1) \<and>
                       process_request_result E s1 = (r2, s2) \<and> request_loop E rc s = (r, sf) \<and>
                       (sf = s2 \<or> (\<exists>u e. sf = snd (prepare_request E [(''url'', u)] s2) \<and> r = Inl e)) \<and>
                       (\<forall>d. r = Inr d \<longrightarrow> r2 = Inr d \<and> sf = s2 \<and>
                            find_redirect_url (config s2) d = Inr None)"
                      using Pair r1 pr res sf by blast
                    then show ?thesis by blast
                  next
                    case (Inr y)
                    with Pair r1 pr r2 fr ro lm ex nex mu pp show ?thesis
                      by (simp add: request_loop.simps [of E rc s])
                  qed
                qed
              qed
            qed
          qed
        qed
      qed
    qed
  qed
qed


lemma request_loop_cases [case_names dispatch_fails halts hop]:
  obtains
    (dispatch_fails) e s1 where "transport_request E s = (Inl e, s1)"
      "request_loop E rc s = (Inl e, if is_grab_error e then reset_temporary_options s1 else s1)"
  | (halts) x s1 r2 s2 r sf where "transport_request E s = (Inr x, s1)"
      "process_request_result E s1 = (r2, s2)" "request_loop E rc s = (r, sf)"
      "sf = s2 \<or> (\<exists>u e. sf = snd (prepare_request E [(''url'', u)] s2) \<and> r = Inl e)"
      "\<forall>d. r = Inr d \<longrightarrow> r2 = Inr d \<and> sf = s2 \<and> find_redirect_url (config s2) d = Inr None"
  | (hop) x s1 d s2 loc limit u y s3 where "transport_request E s = (Inr x, s1)"
      "process_request_result E s1 = (Inr d, s2)"
      "find_redirect_url (config s2) d = Inr (Some loc)"
      "config s2 ''redirect_limit'' = Some limit"
      "int_gt (int (Suc rc)) limit = Inr False"
      "make_url_absolute (urljoin E) (config s2) (PStr loc) = Inr u"
      "prepare_request E [(''url'', u)] s2 = (Inr y, s3)"
      "request_loop E rc s = request_loop E (Suc rc) s3"
  using request_loop_unfold [of E s rc] by blast

lemma request_loop_hop_induct [case_names step]:
  assumes step: "\<And>rc s.
     (\<And>x s1 d s2 loc limit u y s3.
        transport_request E s = (Inr x, s1) \<Longrightarrow>
        process_request_result E s1 = (Inr d, s2) \<Longrightarrow>
        find_redirect_url (config s2) d = Inr (Some loc) \<Longrightarrow>
        config s2 ''redirect_limit'' = Some limit \<Longrightarrow>
        int_gt (int (Suc rc)) limit = Inr False \<Longrightarrow>
        make_url_absolute (urljoin E) (config s2) (PStr loc) = Inr u \<Longrightarrow>
        prepare_request E [(''url'', u)] s2 = (Inr y, s3) \<Longrightarrow> P (Suc rc) s3) \<Longrightarrow> P rc s"
  shows "P rc s"
proof -
  have "E' = E \<Longrightarrow> P rc s" for E'
  proof (induction E' rc s rule: request_loop.induct)
    case (1 E' rc s)
    show ?case
    proof (rule step)
      fix x s1 d s2 loc limit u y s3
      assume "transport_request E s = (Inr x, s1)" "process_request_result E s1 = (Inr d, s2)"
        "find_redirect_url (config s2) d = Inr (Some loc)"
        "config s2 ''redirect_limit'' = Some limit"
        "int_gt (int (Suc rc)) limit = Inr False"
        "make_url_absolute (urljoin E) (config s2) (PStr loc) = Inr u"
        "prepare_request E [(''url'', u)] s2 = (Inr y, s3)"
      with "1.prems" show "P (Suc rc) s3"
        by (intro "1.IH" [of "Inr x" s1 x "Inr d" s2 d "Some loc" loc limit False u "Inr y" s3 y])
           simp_all
    qed
  qed
  then show ?thesis by simp
qed

lemma and_then_dispatched:
  assumes "dispatched (snd r) = h" "\<And>s. dispatched (snd (f s)) = dispatched s"
  shows "dispatched (snd (and_then r f)) = h"
  using assms by (cases r) (auto simp: and_then_def split: sum.splits)

lemma change_proxy_dispatched: "dispatched (snd (change_proxy E s)) = dispatched s"
  by (simp add: change_proxy_def Let_def split: prod.splits)

lemma prepare_request_dispatched: "dispatched (snd (prepare_request E kws s)) = dispatched s"
  unfolding prepare_request_def
  by (intro and_then_dispatched)
     (simp_all add: setup_kwargs_def reset_def auto_change_proxy_def change_proxy_dispatched
        build_request_def Let_def split: prod.splits option.splits sum.splits)

lemma process_request_result_dispatched:
  "dispatched (snd (process_request_result E s)) = dispatched s"
  by (simp add: process_request_result_def Let_def reset_temporary_options_def
      split: sum.splits option.splits)

lemma transport_request_ok:
  assumes "transport_request E s = (Inr x, s1)"
  shows "\<exists>a. prepared s = Some a \<and> dispatched s1 = dispatched s @ [a] \<and>
             (\<forall>e. server E (dispatched s1) \<noteq> RequestFails e)"
  using assms
  by (auto simp: transport_request_def Let_def split: option.splits outcome.splits)

lemma transport_request_fail:
  assumes "transport_request E s = (Inl e, s1)"
  shows "(prepared s = None \<and> s1 = s \<and> \<not> is_grab_error e) \<or>
         (\<exists>a. prepared s = Some a \<and> s1 = s\<lparr>dispatched := dispatched s @ [a]\<rparr> \<and>
              server E (dispatched s @ [a]) = RequestFails e)"
  using assms
  by (auto simp: transport_request_def Let_def split: option.splits outcome.splits)

definition one_shot_cleared :: "config \<Rightarrow> bool" where
  "one_shot_cleared cfg \<longleftrightarrow>
     cfg ''post'' = Some PNone \<and> cfg ''multipart_post'' = Some PNone \<and>
     cfg ''method'' = Some PNone"

lemma request_loop_transport_error:
  assumes "request_loop E rc s = (r, s')"
  shows "prefix (dispatched s) (dispatched s') \<and>
         (\<forall>n e. length (dispatched s) < n \<longrightarrow> n \<le> length (dispatched s') \<longrightarrow>
                server E (take n (dispatched s')) = RequestFails e \<longrightarrow> is_grab_error e \<longrightarrow>
                n = length (dispatched s') \<and> r = Inl e \<and> one_shot_cleared (config s'))"
  using assms
proof (induction rc s rule: request_loop_hop_induct [where E = E])
  case (step rc s)
  show ?case
  proof (cases rule: request_loop_cases [of E s rc])
    case (dispatch_fails e s1)
    note tr = dispatch_fails(1) and res = dispatch_fails(2)
    from res step.prems have r: "r = Inl e"
      and s': "s' = (if is_grab_error e then reset_temporary_options s1 else s1)" by simp_all
    from transport_request_fail [OF tr] show ?thesis
    proof (elim disjE exE conjE)
      assume "prepared s = None" "s1 = s" "\<not> is_grab_error e"
      with s' show ?thesis by simp
    next
      fix a
      assume a: "prepared s = Some a" "s1 = s\<lparr>dispatched := dispatched s @ [a]\<rparr>"
        "server E (dispatched s @ [a]) = RequestFails e"
      have d: "dispatched s' = dispatched s @ [a]"
        using s' a(2) by (simp add: reset_temporary_options_def)
      have "one_shot_cleared (config s')" if "is_grab_error e"
        using that s' by (simp add: one_shot_cleared_def reset_temporary_options_def)
      with d a(3) r show ?thesis by auto
    qed
  next
    case (halts x s1 r2 s2 r' sf)
    note tr = halts(1) and pr = halts(2) and res = halts(3) and sf = halts(4)
    from res step.prems have "sf = s'" by simp
    from transport_request_ok [OF tr] obtain a where a: "prepared s = Some a"
      "dispatched s1 = dispatched s @ [a]" "\<forall>e. server E (dispatched s1) \<noteq> RequestFails e"
      by blast
    have "dispatched s2 = dispatched s1"
      using pr process_request_result_dispatched [of E s1] by simp
    with sf \<open>sf = s'\<close> have d: "dispatched s' = dispatched s @ [a]"
      using a(2) by (auto simp: prepare_request_dispatched)
    with a(2,3) show ?thesis by auto
  next
    case (hop x s1 d s2 loc limit u y s3)
    note tr = hop(1) and pr = hop(2) and fr = hop(3) and lm = hop(4) and gt = hop(5)
      and mu = hop(6) and pp = hop(7) and res = hop(8)
    from res step.prems have rec: "request_loop E (Suc rc) s3 = (r, s')" by simp
    note IH = step.IH [OF tr pr fr lm gt mu pp rec]
    from transport_request_ok [OF tr] obtain a where a: "prepared s = Some a"
      "dispatched s1 = dispatched s @ [a]" "\<forall>e. server E (dispatched s1) \<noteq> RequestFails e"
      by blast
    have "dispatched s2 = dispatched s1"
      using pr process_request_result_dispatched [of E s1] by simp
    moreover have "dispatched s3 = dispatched s2"
      using pp prepare_request_dispatched [of E "[(''url'', u)]" s2] by simp
    ultimately have d3: "dispatched s3 = dispatched s @ [a]" using a(2) by simp
    from IH d3 have pre: "prefix (dispatched s @ [a]) (dispatched s')" by simp
    then have p1: "prefix (dispatched s) (dispatched s')"
      by (meson prefix_order.order_trans prefixI)
    have "n = length (dispatched s') \<and> r = Inl e \<and> one_shot_cleared (config s')"
      if n: "length (dispatched s) < n" "n \<le> length (dispatched s')"
        and f: "server E (take n (dispatched s')) = RequestFails e" "is_grab_error e" for n e
    proof (cases "n = Suc (length (dispatched s))")
      case True
      from pre obtain zs where "dispatched s' = (dispatched s @ [a]) @ zs"
        by (auto simp: prefix_def)
      with True have "take n (dispatched s') = dispatched s @ [a]" by simp
      with f(1) a(2,3) show ?thesis by simp
    next
      case False
      with n d3 have "length (dispatched s3) < n" by simp
      with IH n(2) f show ?thesis by blast
    qed
    with p1 show ?thesis by blast
  qed
qed


lemma and_then_Inr:
  "and_then r f = (Inr y, s') \<Longrightarrow> \<exists>x s1. r = (Inr x, s1) \<and> f s1 = (Inr y, s')"
  by (cases r) (auto simp: and_then_def split: sum.splits)

lemma build_request_prepared:
  "build_request E s = (Inr y, s') \<Longrightarrow>
     \<exists>a. prepared s' = Some a \<and> a_config a = config s' \<and> config s' = config s"
  by (auto simp: build_request_def Let_def split: sum.splits)

lemma prepare_request_prepared:
  assumes "prepare_request E kws s = (Inr y, s')"
  shows "\<exists>a. prepared s' = Some a \<and> a_config a = config s'"
proof -
  from assms obtain x s1 where "build_request E s1 = (Inr y, s')"
    unfolding prepare_request_def by (blast dest: and_then_Inr)
  then show ?thesis by (blast dest: build_request_prepared)
qed

lemma process_request_result_cleared:
  "process_request_result E s = (Inr d, s') \<Longrightarrow> one_shot_cleared (config s')"
  by (auto simp: process_request_result_def Let_def reset_temporary_options_def
        one_shot_cleared_def split: sum.splits option.splits if_splits)

lemma prepare_request_url_cleared:
  assumes "one_shot_cleared (config s)"
  shows "one_shot_cleared (config (snd (prepare_request E [(''url'', u)] s)))"
  using assms by (simp add: one_shot_cleared_def prepare_request_other)

lemma request_loop_attempts_cleared:
  assumes "request_loop E rc s = (r, s')" "prepared s = Some a0" "one_shot_cleared (a_config a0)"
  shows "\<forall>a \<in> set (drop (length (dispatched s)) (dispatched s')). one_shot_cleared (a_config a)"
  using assms
proof (induction rc s arbitrary: a0 rule: request_loop_hop_induct [where E = E])
  case (step rc s)
  show ?case
  proof (cases rule: request_loop_cases [of E s rc])
    case (dispatch_fails e s1)
    from dispatch_fails(2) step.prems(1)
    have s': "s' = (if is_grab_error e then reset_temporary_options s1 else s1)" by simp
    from transport_request_fail [OF dispatch_fails(1)] step.prems(2)
    have "s1 = s\<lparr>dispatched := dispatched s @ [a0]\<rparr>" by auto
    with s' have "dispatched s' = dispatched s @ [a0]"
      by (simp add: reset_temporary_options_def)
    with step.prems(3) show ?thesis by simp
  next
    case (halts x s1 r2 s2 r' sf)
    from halts(3) step.prems(1) have "sf = s'" by simp
    from transport_request_ok [OF halts(1)] step.prems(2)
    have "dispatched s1 = dispatched s @ [a0]" by auto
    moreover have "dispatched s2 = dispatched s1"
      using halts(2) process_request_result_dispatched [of E s1] by simp
    ultimately have "dispatched s' = dispatched s @ [a0]"
      using halts(4) \<open>sf = s'\<close> by (auto simp: prepare_request_dispatched)
    with step.prems(3) show ?thesis by simp
  next
    case (hop x s1 d s2 loc limit u y s3)
    from hop(8) step.prems(1) have rec: "request_loop E (Suc rc) s3 = (r, s')" by simp
    from transport_request_ok [OF hop(1)] step.prems(2)
    have d1: "dispatched s1 = dispatched s @ [a0]" by auto
    have d2: "dispatched s2 = dispatched s1"
      using hop(2) process_request_result_dispatched [of E s1] by simp
    have d3: "dispatched s3 = dispatched s2"
      using hop(7) prepare_request_dispatched [of E "[(''url'', u)]" s2] by simp
    have "one_shot_cleared (config s2)" using hop(2) by (rule process_request_result_cleared)
    then have c3: "one_shot_cleared (config s3)"
      using prepare_request_url_cleared [of s2 E u] hop(7) by simp
    from prepare_request_prepared [OF hop(7)] obtain a3 where
      a3: "prepared s3 = Some a3" "a_config a3 = config s3" by blast
    from step.IH [OF hop(1-7) rec a3(1)] c3 a3(2)
    have IH: "\<forall>a \<in> set (drop (length (dispatched s3)) (dispatched s')).
                one_shot_cleared (a_config a)" by simp
    from request_loop_transport_error [OF rec] have "prefix (dispatched s3) (dispatched s')"
      by simp
    then obtain zs where zs: "dispatched s' = dispatched s3 @ zs" by (auto simp: prefix_def)
    with IH have "\<forall>a \<in> set zs. one_shot_cleared (a_config a)" by simp
    moreover have "drop (length (dispatched s)) (dispatched s') = a0 # zs"
      using zs d1 d2 d3 by simp
    ultimately show ?thesis using step.prems(3) by simp
  qed
qed

lemma request_loop_final_cleared:
  assumes "request_loop E rc s = (Inr d, s')"
  shows "one_shot_cleared (config s')"
  using assms
proof (induction rc s rule: request_loop_hop_induct [where E = E])
  case (step rc s)
  show ?case
  proof (cases rule: request_loop_cases [of E s rc])
    case (dispatch_fails e s1)
    with step.prems show ?thesis by simp
  next
    case (halts x s1 r2 s2 r' sf)
    with step.prems process_request_result_cleared [of E s1 d s2] show ?thesis by simp
  next
    case (hop x s1 d' s2 loc limit u y s3)
    from hop(8) step.prems have "request_loop E (Suc rc) s3 = (Inr d, s')" by simp
    with step.IH [OF hop(1-7)] show ?thesis by simp
  qed
qed

lemma request_loop_hops_cleared:
  assumes "request_loop E rc s = (r, s')"
  shows "\<forall>a \<in> set (drop (Suc (length (dispatched s))) (dispatched s')).
            one_shot_cleared (a_config a)"
proof (cases rule: request_loop_cases [of E s rc])
  case (dispatch_fails e s1)
  from dispatch_fails(2) assms
  have s': "s' = (if is_grab_error e then reset_temporary_options s1 else s1)"
    by simp
  from transport_request_fail [OF dispatch_fails(1)] s'
  have "length (dispatched s') \<le> Suc (length (dispatched s))"
    by (auto simp: reset_temporary_options_def)
  then show ?thesis by simp
next
  case (halts x s1 r2 s2 r' sf)
  from halts(3) assms have eq: "sf = s'" "r' = r" by simp_all
  from transport_request_ok [OF halts(1)]
  obtain a where "dispatched s1 = dispatched s @ [a]" by blast
  moreover have "dispatched s2 = dispatched s1"
    using halts(2) process_request_result_dispatched [of E s1] by simp
  ultimately have "dispatched s' = dispatched s @ [a]"
    using halts(4) eq by (auto simp: prepare_request_dispatched)
  then show ?thesis by simp
next
  case (hop x s1 d s2 loc limit u y s3)
  from hop(8) assms have rec: "request_loop E (Suc rc) s3 = (r, s')" by simp
  from transport_request_ok [OF hop(1)]
  obtain a where d1: "dispatched s1 = dispatched s @ [a]" by blast
  have d2: "dispatched s2 = dispatched s1"
    using hop(2) process_request_result_dispatched [of E s1] by simp
  have d3: "dispatched s3 = dispatched s2"
    using hop(7) prepare_request_dispatched [of E "[(''url'', u)]" s2] by simp
  have "one_shot_cleared (config s2)" using hop(2) by (rule process_request_result_cleared)
  then have c3: "one_shot_cleared (config s3)"
    using prepare_request_url_cleared [of s2 E u] hop(7) by simp
  from prepare_request_prepared [OF hop(7)] obtain a3 where
    a3: "prepared s3 = Some a3" "a_config a3 = config s3" by blast
  from request_loop_attempts_cleared [OF rec a3(1)] c3 a3(2)
  have hops: "\<forall>a \<in> set (drop (length (dispatched s3)) (dispatched s')).
                one_shot_cleared (a_config a)" by simp
  have len: "length (dispatched s3) = Suc (length (dispatched s))" using d1 d2 d3 by simp
  with hops show ?thesis by simp
qed

subsection \<open>Examples: a transport that accepts every config, a fresh session\<close>

text \<open>
  For evaluating the engine on concrete calls: a transport whose \<^verbatim>\<open>process_config\<close> accepts
  every config and whose method is \<^verbatim>\<open>POST\<close> exactly when a payload is configured, over a
  given server; the session \<^verbatim>\<open>Grab()\<close> constructs; a redirect response and a page.
\<close>

definition plain_env :: "(attempt list \<Rightarrow> outcome) \<Rightarrow> env" where
  "plain_env srv =
     \<lparr>urljoin = join_on_host,
      detect_request_method =
        (\<lambda>cfg. if cfg ''post'' \<in> {None, Some PNone} \<and> cfg ''multipart_post'' \<in> {None, Some PNone}
               then ''GET'' else ''POST''),
      process_config = (\<lambda>cfg jar. Inr jar),
      server = srv,
      random_index = (\<lambda>k. 0),
      utcnow = (\<lambda>k. 0)\<rparr>"

definition grab_init :: "pyval \<Rightarrow> grab" where
  "grab_init ch =
     \<lparr>config = init_config ch, cookies = [], doc = None, request_method = None,
      proxylist = [], prepared = None, received = None, dispatched = [], draws = 0\<rparr>"

lemmas engine_defs = grab_request_def prepare_request_def and_then_def setup_kwargs_def
  auto_change_proxy_def build_request_def reset_def grab_setup_def make_url_absolute_def
  transport_request_def process_request_result_def prepare_response_def
  reset_temporary_options_def find_redirect_url_def plain_env_def grab_init_def
  init_config_def default_config_def join_on_host_def ascii_lower_def Let_def


definition redirect_to :: "int \<Rightarrow> string \<Rightarrow> document" where
  "redirect_to status location =
     \<lparr>body_path = None, body = Some [], code = Some status,
      headers = Some [(''Content-Length'', ''0''), (''Location'', location)],
      url = PStr [], doc_cookies = [], timestamp = None\<rparr>"

definition page :: "string \<Rightarrow> document" where
  "page content =
     \<lparr>body_path = None, body = Some content, code = Some 200,
      headers = Some [(''Content-Type'', ''text/html'')],
      url = PStr [], doc_cookies = [], timestamp = None\<rparr>"

lemmas example_defs = engine_defs redirect_to_def page_def

subsection \<open>One-shot options\<close>

text \<open>
  C6. Whenever, during a call of \<^verbatim>\<open>request()\<close>, \<^verbatim>\<open>transport.request()\<close> raises a
  \<^verbatim>\<open>GrabError\<close> for an attempt of that call (the \<open>n\<close>-th attempt dispatched to the server
  fails with \<open>e\<close>), that attempt is the last one dispatched (the engine does not retry),
  the call raises this very error, and the session's \<^verbatim>\<open>post\<close>, \<^verbatim>\<open>multipart_post\<close> and
  \<^verbatim>\<open>method\<close> options are \<^verbatim>\<open>None\<close> when it does.
\<close>

theorem transport_error_clears_payload:
  assumes "grab_request E url_arg kwargs s = (r, s')"
    and "length (dispatched s) < n" "n \<le> length (dispatched s')"
    and "server E (take n (dispatched s')) = RequestFails e" "is_grab_error e"
  shows "n = length (dispatched s') \<and> r = Inl e \<and>
         config s' ''post'' = Some PNone \<and> config s' ''multipart_post'' = Some PNone \<and>
         config s' ''method'' = Some PNone"
proof -
  define kws where "kws = (if url_arg \<noteq> PNone then dict_set ''url'' url_arg kwargs else kwargs)"
  obtain r1 s1 where pp: "prepare_request E kws s = (r1, s1)"
    by (cases "prepare_request E kws s")
  have d1: "dispatched s1 = dispatched s"
    using pp prepare_request_dispatched [of E kws s] by simp
  show ?thesis
  proof (cases r1)
    case (Inl e)
    with pp assms(1) have "s' = s1"
      by (simp_all add: grab_request_def kws_def Let_def)
    with d1 assms(2,3) show ?thesis by simp
  next
    case (Inr y)
    with pp assms(1) have "request_loop E 0 s1 = (r, s')"
      by (simp add: grab_request_def kws_def Let_def)
    from request_loop_transport_error [OF this] d1 assms(2-5)
    show ?thesis by (simp add: one_shot_cleared_def)
  qed
qed


theorem transport_error_clears_payload_witness:
  "fst (grab_request (plain_env (\<lambda>h. RequestFails GrabConnectionError)) (PStr ''http://host/'')
         [(''post'', PStr ''a=1'')] (grab_init (PDict []))) = Inl GrabConnectionError \<and>
   map (\<lambda>a. a_config a ''post'')
     (dispatched (snd (grab_request (plain_env (\<lambda>h. RequestFails GrabConnectionError))
         (PStr ''http://host/'') [(''post'', PStr ''a=1'')] (grab_init (PDict [])))))
     = [Some (PStr ''a=1'')] \<and>
   config (snd (grab_request (plain_env (\<lambda>h. RequestFails GrabConnectionError))
         (PStr ''http://host/'') [(''post'', PStr ''a=1'')] (grab_init (PDict []))))
     ''post'' = Some PNone"
proof -
  define E where "E = plain_env (\<lambda>h. RequestFails GrabConnectionError)"
  define run where "run = grab_request E (PStr ''http://host/'') [(''post'', PStr ''a=1'')]
     (grab_init (PDict []))"
  have sent: "map (\<lambda>a. a_config a ''post'') (dispatched (snd run)) = [Some (PStr ''a=1'')]"
    by (simp add: run_def E_def example_defs request_loop.simps)
  then have len: "length (dispatched (snd run)) = 1"
    by (metis length_map length_Cons list.size(3) One_nat_def)
  have srv: "server E (take 1 (dispatched (snd run))) = RequestFails GrabConnectionError"
    by (simp add: E_def plain_env_def)
  have "grab_request E (PStr ''http://host/'') [(''post'', PStr ''a=1'')] (grab_init (PDict []))
          = (fst run, snd run)"
    by (simp add: run_def)
  from transport_error_clears_payload [OF this, of 1 GrabConnectionError] len srv
  have "fst run = Inl GrabConnectionError \<and> config (snd run) ''post'' = Some PNone"
    by (simp add: grab_init_def)
  with sent show ?thesis by (simp add: run_def E_def)
qed

text \<open>
  C10. After every call of \<^verbatim>\<open>request()\<close> that returns a Document, the session's \<^verbatim>\<open>post\<close>,
  \<^verbatim>\<open>multipart_post\<close> and \<^verbatim>\<open>method\<close> options are \<^verbatim>\<open>None\<close>; and every attempt of the call
  after the first (every followed redirect hop) is built from a config in which the
  three are \<^verbatim>\<open>None\<close>.
\<close>

theorem one_shot_options_cleared:
  assumes "grab_request E url_arg kwargs s = (r, s')"
  shows "(\<forall>d. r = Inr d \<longrightarrow>
            config s' ''post'' = Some PNone \<and> config s' ''multipart_post'' = Some PNone \<and>
            config s' ''method'' = Some PNone) \<and>
         (\<forall>a \<in> set (drop (Suc (length (dispatched s))) (dispatched s')).
            a_config a ''post'' = Some PNone \<and> a_config a ''multipart_post'' = Some PNone \<and>
            a_config a ''method'' = Some PNone)"
proof -
  define kws where "kws = (if url_arg \<noteq> PNone then dict_set ''url'' url_arg kwargs else kwargs)"
  obtain r1 s1 where pp: "prepare_request E kws s = (r1, s1)"
    by (cases "prepare_request E kws s")
  have d1: "dispatched s1 = dispatched s"
    using pp prepare_request_dispatched [of E kws s] by simp
  show ?thesis
  proof (cases r1)
    case (Inl e)
    with pp assms have "r = Inl e" "s' = s1"
      by (simp_all add: grab_request_def kws_def Let_def)
    with d1 show ?thesis by simp
  next
    case (Inr y)
    with pp assms have "request_loop E 0 s1 = (r, s')"
      by (simp add: grab_request_def kws_def Let_def)
    from request_loop_final_cleared [of E 0 s1 _ s'] request_loop_hops_cleared [OF this] this d1
    show ?thesis by (simp add: one_shot_cleared_def)
  qed
qed

theorem one_shot_options_cleared_witness:
  "fst (grab_request
          (plain_env (\<lambda>h. if length h = 1 then Responds (redirect_to 302 ''/next'')
                          else Responds (page ''done'')))
          (PStr ''http://host/'') [(''post'', PStr ''a=1'')] (grab_init (PDict [])))
     = Inr ((page ''done'')\<lparr>timestamp := Some 0\<rparr>) \<and>
   map (\<lambda>a. (a_method a, a_config a ''post''))
     (dispatched (snd (grab_request
          (plain_env (\<lambda>h. if length h = 1 then Responds (redirect_to 302 ''/next'')
                          else Responds (page ''done'')))
          (PStr ''http://host/'') [(''post'', PStr ''a=1'')] (grab_init (PDict [])))))
     = [(''POST'', Some (PStr ''a=1'')), (''GET'', Some PNone)] \<and>
   config (snd (grab_request
          (plain_env (\<lambda>h. if length h = 1 then Responds (redirect_to 302 ''/next'')
                          else Responds (page ''done'')))
          (PStr ''http://host/'') [(''post'', PStr ''a=1'')] (grab_init (PDict []))))
     ''post'' = Some PNone"
proof -
  define E where "E = plain_env (\<lambda>h. if length h = 1 then Responds (redirect_to 302 ''/next'')
                          else Responds (page ''done''))"
  define run where "run = grab_request E (PStr ''http://host/'') [(''post'', PStr ''a=1'')]
     (grab_init (PDict []))"
  have res: "fst run = Inr ((page ''done'')\<lparr>timestamp := Some 0\<rparr>)"
    by (simp add: run_def E_def example_defs request_loop.simps)
  have sent: "map (\<lambda>a. (a_method a, a_config a ''post'')) (dispatched (snd run))
      = [(''POST'', Some (PStr ''a=1'')), (''GET'', Some PNone)]"
    by (simp add: run_def E_def example_defs request_loop.simps)
  have "grab_request E (PStr ''http://host/'') [(''post'', PStr ''a=1'')] (grab_init (PDict []))
          = (fst run, snd run)"
    by (simp add: run_def)
  from one_shot_options_cleared [OF this] res
  have "config (snd run) ''post'' = Some PNone" by simp
  with res sent show ?thesis by (simp add: run_def E_def)
qed

subsection \<open>Following a redirect\<close>

lemma and_then_Inr_iff:
  "and_then r f = (Inr y, s') \<longleftrightarrow> (\<exists>x s1. r = (Inr x, s1) \<and> f s1 = (Inr y, s'))"
  by (cases r) (auto simp: and_then_def split: sum.splits)

lemma prepare_request_steps:
  assumes "prepare_request E kws s = (Inr y, s')"
  obtains x1 s1 x2 s2 where "setup_kwargs E kws (reset s) = (Inr x1, s1)"
    "auto_change_proxy E s1 = (Inr x2, s2)" "build_request E s2 = (Inr y, s')"
  using assms unfolding prepare_request_def and_then_Inr_iff by blast

lemma setup_kwargs_url:
  assumes "setup_kwargs E [(''url'', u)] s = (Inr x, s1)"
    and "config s ''url'' = Some base" "truthy base"
  shows "\<exists>t. urljoin E base u = Inr t \<and> config s1 ''url'' = Some t"
  using assms
  by (auto simp: setup_kwargs_def grab_setup_def make_url_absolute_def split: sum.splits)

lemma prepare_request_url:
  assumes "prepare_request E [(''url'', u)] s = (Inr y, s')"
    and "config s ''url'' = Some base" "truthy base"
  shows "\<exists>t. urljoin E base u = Inr t \<and> config s' ''url'' = Some t"
proof -
  from assms(1) obtain x1 s1 x2 s2 where st:
    "setup_kwargs E [(''url'', u)] (reset s) = (Inr x1, s1)"
    "auto_change_proxy E s1 = (Inr x2, s2)" "build_request E s2 = (Inr y, s')"
    by (rule prepare_request_steps)
  from setup_kwargs_url [OF st(1)] assms(2,3) obtain t where
    t: "urljoin E base u = Inr t" "config s1 ''url'' = Some t"
    by (auto simp: reset_def)
  have "config s2 ''url'' = config s1 ''url''"
    using st(2) auto_change_proxy_other [of "''url''" E s1] by simp
  moreover have "config s' = config s2"
    using st(3) build_request_config [of E s2] by simp
  ultimately show ?thesis using t by simp
qed

text \<open>
  C1. In any iteration of the loop of \<^verbatim>\<open>request()\<close> (\<open>rc\<close> redirects followed so far, the
  next one within the limit; \<open>rc = 0\<close> and a limit of at least 1 for the first attempt of a
  call): when the attempt succeeds with a Document \<open>d1\<close> whose status is one of 301, 302,
  303, 307, 308 and whose \<^verbatim>\<open>Location\<close> header is \<open>loc\<close> (non-empty), with redirect-following
  enabled, and the resolved URL \<open>target = urljoin(current URL, loc)\<close> is absolute (joining
  it again gives \<open>target\<close>), then the engine configures \<open>target\<close> as the URL and dispatches a
  further attempt built from that config; and when that attempt succeeds with a Document
  \<open>d2\<close> that is no redirect, the loop, and \<^verbatim>\<open>request()\<close> entered with \<open>s\<close>, returns \<open>d2\<close>.
  The states \<open>s1\<close> to \<open>s5\<close> are the session after each step of the two iterations.
\<close>

theorem redirect_followed:
  fixes E :: env and s :: grab and rc :: nat
  defines "s1 \<equiv> snd (transport_request E s)"
  defines "s2 \<equiv> snd (process_request_result E s1)"
  assumes sent: "fst (transport_request E s) = Inr ()"
    and got: "fst (process_request_result E s1) = Inr d1"
    and status: "code d1 \<in> Some ` {301, 302, 303, 307, 308}"
    and location: "headers d1 = Some hs" "msg_get hs ''Location'' = Some loc" "loc \<noteq> []"
    and follow: "config s ''follow_location'' = Some fl" "truthy fl"
    and limit: "config s ''redirect_limit'' = Some (PInt m)" "int rc < m"
    and current: "config s ''url'' = Some base" "truthy base"
    and resolved: "urljoin E base (PStr loc) = Inr target" "urljoin E base target = Inr target"
  defines "s3 \<equiv> snd (prepare_request E [(''url'', target)] s2)"
  assumes built: "fst (prepare_request E [(''url'', target)] s2) = Inr ()"
  defines "s4 \<equiv> snd (transport_request E s3)"
  defines "s5 \<equiv> snd (process_request_result E s4)"
  assumes sent2: "fst (transport_request E s3) = Inr ()"
    and got2: "fst (process_request_result E s4) = Inr d2"
    and final: "find_redirect_url (config s5) d2 = Inr None"
  shows "request_loop E rc s = (Inr d2, s5) \<and>
         config s3 ''url'' = Some target \<and>
         (\<exists>a1 a2. dispatched s5 = dispatched s @ [a1, a2] \<and> a_config a2 ''url'' = Some target) \<and>
         (\<forall>url_arg kwargs s0 y. rc = 0 \<and>
             prepare_request E
               (if url_arg \<noteq> PNone then dict_set ''url'' url_arg kwargs else kwargs) s0 = (Inr y, s)
             \<longrightarrow> grab_request E url_arg kwargs s0 = (Inr d2, s5))"
proof -
  have tr1: "transport_request E s = (Inr (), s1)" using sent by (simp add: s1_def prod_eq_iff)
  have pr1: "process_request_result E s1 = (Inr d1, s2)"
    using got by (simp add: s2_def prod_eq_iff)
  have pp: "prepare_request E [(''url'', target)] s2 = (Inr (), s3)"
    using built by (simp add: s3_def prod_eq_iff)
  have tr2: "transport_request E s3 = (Inr (), s4)" using sent2 by (simp add: s4_def prod_eq_iff)
  have pr2: "process_request_result E s4 = (Inr d2, s5)"
    using got2 by (simp add: s5_def prod_eq_iff)
  have c1: "config s1 = config s" using transport_request_config [of E s] by (simp add: s1_def)
  have c2: "config s2 k = config s k" if "k \<notin> {''post'', ''multipart_post'', ''method''}" for k
    using process_request_result_other [OF that, of E s1] c1 by (simp add: s2_def)
  have fr: "find_redirect_url (config s2) d1 = Inr (Some loc)"
    using status location follow c2 [of "''follow_location''"]
    by (simp add: find_redirect_url_def)
  have lm: "config s2 ''redirect_limit'' = Some (PInt m)"
    using limit(1) c2 [of "''redirect_limit''"] by simp
  have gt: "int_gt (int (Suc rc)) (PInt m) = Inr False" using limit(2) by simp
  have b2: "config s2 ''url'' = Some base" using current(1) c2 [of "''url''"] by simp
  have mu: "make_url_absolute (urljoin E) (config s2) (PStr loc) = Inr target"
    using b2 current(2) resolved(1) by (simp add: make_url_absolute_def)
  have hop: "request_loop E rc s = request_loop E (Suc rc) s3"
    using tr1 pr1 fr lm gt mu pp by (simp add: request_loop.simps [of E rc s])
  have stop: "request_loop E (Suc rc) s3 = (Inr d2, s5)"
    using tr2 pr2 final by (simp add: request_loop.simps [of E "Suc rc" s3])
  have res: "request_loop E rc s = (Inr d2, s5)" using hop stop by simp
  have url3: "config s3 ''url'' = Some target"
    using prepare_request_url [OF pp b2 current(2)] resolved(2) by simp
  from transport_request_ok [OF tr1] obtain a1 where
    a1: "dispatched s1 = dispatched s @ [a1]" by blast
  from transport_request_ok [OF tr2] obtain a2 where
    a2: "prepared s3 = Some a2" "dispatched s4 = dispatched s3 @ [a2]" by blast
  from prepare_request_prepared [OF pp] a2(1) have ac: "a_config a2 = config s3" by simp
  have "dispatched s2 = dispatched s1"
    using process_request_result_dispatched [of E s1] by (simp add: s2_def)
  moreover have "dispatched s3 = dispatched s2"
    using prepare_request_dispatched [of E "[(''url'', target)]" s2] by (simp add: s3_def)
  moreover have "dispatched s5 = dispatched s4"
    using process_request_result_dispatched [of E s4] by (simp add: s5_def)
  ultimately have d5: "dispatched s5 = dispatched s @ [a1, a2]" using a1 a2(2) by simp
  have call: "grab_request E url_arg kwargs s0 = (Inr d2, s5)"
    if "rc = 0" "prepare_request E
       (if url_arg \<noteq> PNone then dict_set ''url'' url_arg kwargs else kwargs) s0 = (Inr y, s)"
    for url_arg kwargs s0 y
    using that res by (simp add: grab_request_def Let_def)
  have ex: "\<exists>a1 a2. dispatched s5 = dispatched s @ [a1, a2] \<and> a_config a2 ''url'' = Some target"
    using d5 ac url3 by simp
  show ?thesis
  proof (intro conjI allI impI)
    fix url_arg kwargs s0 y
    assume "rc = 0 \<and> prepare_request E
       (if url_arg \<noteq> PNone then dict_set ''url'' url_arg kwargs else kwargs) s0 = (Inr y, s)"
    then show "grab_request E url_arg kwargs s0 = (Inr d2, s5)" using call by blast
  qed (rule res url3 ex)+
qed


theorem redirect_followed_witness:
  "fst (grab_request
          (plain_env (\<lambda>h. if length h = 1 then Responds (redirect_to 302 ''/next'')
                          else Responds (page ''done'')))
          (PStr ''http://host/a'') [] (grab_init (PDict [])))
     = Inr ((page ''done'')\<lparr>timestamp := Some 0\<rparr>) \<and>
   map (\<lambda>a. a_config a ''url'')
     (dispatched (snd (grab_request
          (plain_env (\<lambda>h. if length h = 1 then Responds (redirect_to 302 ''/next'')
                          else Responds (page ''done'')))
          (PStr ''http://host/a'') [] (grab_init (PDict [])))))
     = [Some (PStr ''http://host/a''), Some (PStr ''http://host/next'')]"
proof -
  define E where "E = plain_env (\<lambda>h. if length h = 1 then Responds (redirect_to 302 ''/next'')
                          else Responds (page ''done''))"
  define s where "s = snd (prepare_request E [(''url'', PStr ''http://host/a'')] (grab_init (PDict [])))"
  define s1 where "s1 = snd (transport_request E s)"
  define s2 where "s2 = snd (process_request_result E s1)"
  define s3 where "s3 = snd (prepare_request E [(''url'', PStr ''http://host/next'')] s2)"
  define s4 where "s4 = snd (transport_request E s3)"
  define s5 where "s5 = snd (process_request_result E s4)"
  have pp: "prepare_request E [(''url'', PStr ''http://host/a'')] (grab_init (PDict [])) = (Inr (), s)"
    by (simp add: s_def E_def example_defs)
  have h: "fst (transport_request E s) = Inr ()"
    "fst (process_request_result E s1) = Inr ((redirect_to 302 ''/next'')\<lparr>timestamp := Some 0\<rparr>)"
    "code ((redirect_to 302 ''/next'')\<lparr>timestamp := Some 0\<rparr>) \<in> Some ` {301, 302, 303, 307, 308}"
    "headers ((redirect_to 302 ''/next'')\<lparr>timestamp := Some 0\<rparr>)
       = Some [(''Content-Length'', ''0''), (''Location'', ''/next'')]"
    "msg_get [(''Content-Length'', ''0''), (''Location'', ''/next'')] ''Location'' = Some ''/next''"
    "config s ''follow_location'' = Some (PBool True)"
    "config s ''redirect_limit'' = Some (PInt 10)"
    "config s ''url'' = Some (PStr ''http://host/a'')"
    "urljoin E (PStr ''http://host/a'') (PStr ''/next'') = Inr (PStr ''http://host/next'')"
    "urljoin E (PStr ''http://host/a'') (PStr ''http://host/next'') = Inr (PStr ''http://host/next'')"
    by (simp_all add: s1_def s_def E_def example_defs)
  have h2: "fst (prepare_request E [(''url'', PStr ''http://host/next'')] s2) = Inr ()"
    "fst (transport_request E s3) = Inr ()"
    "fst (process_request_result E s4) = Inr ((page ''done'')\<lparr>timestamp := Some 0\<rparr>)"
    "find_redirect_url (config s5) ((page ''done'')\<lparr>timestamp := Some 0\<rparr>) = Inr None"
    by (simp_all add: s5_def s4_def s3_def s2_def s1_def s_def E_def example_defs)
  from redirect_followed [of E s "(redirect_to 302 ''/next'')\<lparr>timestamp := Some 0\<rparr>"
      "[(''Content-Length'', ''0''), (''Location'', ''/next'')]" "''/next''" "PBool True" 10 0
      "PStr ''http://host/a''" "PStr ''http://host/next''" "(page ''done'')\<lparr>timestamp := Some 0\<rparr>"]
    h h2
  have r: "grab_request E (PStr ''http://host/a'') [] (grab_init (PDict []))
         = (Inr ((page ''done'')\<lparr>timestamp := Some 0\<rparr>), s5)"
    and "\<exists>a1 a2. dispatched s5 = dispatched s @ [a1, a2] \<and>
            a_config a2 ''url'' = Some (PStr ''http://host/next'')"
    using pp by (simp_all add: s1_def s2_def s3_def s4_def s5_def)
  have urls: "map (\<lambda>a. a_config a ''url'') (dispatched s5)
     = [Some (PStr ''http://host/a''), Some (PStr ''http://host/next'')]"
    by (simp add: s5_def s4_def s3_def s2_def s1_def s_def E_def example_defs)
  from r urls show ?thesis by (simp add: E_def)
qed


subsection \<open>The redirect limit\<close>

text \<open>What a hop needs to be prepared, and what a chain of redirects comes to.\<close>

lemma prepare_request_hop_succeeds:
  assumes url: "config s ''url'' = Some (PStr b)"
    and nop: "proxylist s = []"
    and join: "\<forall>b r. \<exists>t. urljoin E (PStr b) (PStr r) = Inr (PStr t)"
    and build: "\<forall>cfg jar. \<exists>jar'. process_config E cfg jar = Inr jar'"
  shows "\<exists>y s'. prepare_request E [(''url'', PStr r)] s = (Inr y, s') \<and> proxylist s' = [] \<and>
           prepared s' \<noteq> None \<and> (\<exists>b'. config s' ''url'' = Some (PStr b'))"
proof -
  define u where "u = PStr r"
  have known: "\<not> (\<exists>k \<in> set (map fst [(''url'', u)]). config (reset s) k = None)"
    using url by (simp add: reset_def)
  from join obtain t where t: "urljoin E (PStr b) u = Inr (PStr t)" unfolding u_def by blast
  define cfg1 where "cfg1 = (if b \<noteq> [] then (config s)(''url'' \<mapsto> PStr t) else (config s)(''url'' \<mapsto> u))"
  have "config (reset s) = config s" by (simp add: reset_def)
  with grab_setup_known [OF known, of "urljoin E"] url t
  have gs: "grab_setup (urljoin E) [(''url'', u)] (config (reset s)) = (Inr (), cfg1)"
    by (simp add: cfg1_def)
  define s1 where "s1 = (reset s)\<lparr>config := cfg1\<rparr>"
  have st1: "setup_kwargs E [(''url'', u)] (reset s) = (Inr (), s1)"
    using gs by (simp add: setup_kwargs_def s1_def)
  have st2: "auto_change_proxy E s1 = (Inr (), s1)"
    using nop by (simp add: auto_change_proxy_def s1_def reset_def)
  define s2 where "s2 = s1\<lparr>request_method := Some (detect_request_method E (config s1))\<rparr>"
  from build obtain jar where jar: "process_config E (config s2) (cookies s2) = Inr jar" by blast
  define s3 where "s3 = s2\<lparr>cookies := jar, prepared := Some \<lparr>a_method = detect_request_method E (config s1),
      a_config = config s2, a_cookies = jar\<rparr>\<rparr>"
  have st3: "build_request E s1 = (Inr (), s3)"
    using jar by (simp add: build_request_def Let_def s2_def s3_def)
  have "prepare_request E [(''url'', u)] s = (Inr (), s3)"
    by (simp add: prepare_request_def and_then_def st1 st2 st3)
  moreover have "proxylist s3 = []" using nop by (simp add: s3_def s2_def s1_def reset_def)
  moreover have "prepared s3 \<noteq> None" by (simp add: s3_def)
  moreover have "\<exists>b'. config s3 ''url'' = Some (PStr b')"
    by (simp add: s3_def s2_def s1_def cfg1_def u_def)
  ultimately show ?thesis unfolding u_def by blast
qed

lemma process_request_result_responds:
  assumes "received s = Some (Responds d)" "config s ''reuse_cookies'' = Some ru"
  shows "\<exists>s'. process_request_result E s =
            (Inr (d\<lparr>timestamp := Some (utcnow E (length (dispatched s)))\<rparr>), s') \<and>
          proxylist s' = proxylist s"
  using assms
  by (simp add: process_request_result_def prepare_response_def reset_temporary_options_def Let_def)

lemma transport_request_responds:
  assumes "prepared s = Some a" "server E (dispatched s @ [a]) = Responds d"
  shows "transport_request E s =
           (Inr (), s\<lparr>dispatched := dispatched s @ [a], received := Some (Responds d)\<rparr>)"
  using assms by (simp add: transport_request_def Let_def)

lemma request_loop_exhausts:
  assumes "k = nat L - rc" "int rc \<le> L"
    and "prepared s = Some a0" "proxylist s = []"
    and "config s ''redirect_limit'' = Some (PInt L)"
    and "config s ''follow_location'' = Some fl" "truthy fl"
    and "config s ''reuse_cookies'' = Some ru"
    and "config s ''url'' = Some (PStr b)"
    and srv: "\<forall>h. length (dispatched s) < length h \<and> length h \<le> length (dispatched s) + (k + 1) \<longrightarrow>
            (\<exists>d hs loc. server E h = Responds d \<and> code d \<in> Some ` {301, 302, 303, 307, 308} \<and>
               headers d = Some hs \<and> msg_get hs ''Location'' = Some loc \<and> loc \<noteq> [])"
    and join: "\<forall>b r. \<exists>t. urljoin E (PStr b) (PStr r) = Inr (PStr t)"
    and build: "\<forall>cfg jar. \<exists>jar'. process_config E cfg jar = Inr jar'"
  shows "\<exists>s'. request_loop E rc s = (Inl GrabTooManyRedirectsError, s') \<and>
           length (dispatched s') = length (dispatched s) + (k + 1)"
  using assms(1-10)
proof (induction k arbitrary: rc s a0 b)
  case (0 rc s a0 b)
  note prems = 0
  from prems(10) [rule_format, of "dispatched s @ [a0]"] obtain d hs loc where
    d: "server E (dispatched s @ [a0]) = Responds d" "code d \<in> Some ` {301, 302, 303, 307, 308}"
       "headers d = Some hs" "msg_get hs ''Location'' = Some loc" "loc \<noteq> []"
    by auto
  define s1 where "s1 = s\<lparr>dispatched := dispatched s @ [a0], received := Some (Responds d)\<rparr>"
  have tr: "transport_request E s = (Inr (), s1)"
    using transport_request_responds [OF prems(3) d(1)] by (simp add: s1_def)
  from process_request_result_responds [of s1 d ru E] prems(8) obtain s2 where
    pr: "process_request_result E s1 =
           (Inr (d\<lparr>timestamp := Some (utcnow E (length (dispatched s1)))\<rparr>), s2)"
    by (auto simp: s1_def)
  let ?d = "d\<lparr>timestamp := Some (utcnow E (length (dispatched s1)))\<rparr>"
  have c2: "config s2 k = config s k" if "k \<notin> {''post'', ''multipart_post'', ''method''}" for k
    using process_request_result_other [OF that, of E s1] pr by (simp add: s1_def)
  have fr: "find_redirect_url (config s2) ?d = Inr (Some loc)"
    using d prems(6,7) c2 [of "''follow_location''"] by (simp add: find_redirect_url_def)
  have lm: "config s2 ''redirect_limit'' = Some (PInt L)"
    using prems(5) c2 [of "''redirect_limit''"] by simp
  from prems(1,2) have "int (Suc rc) > L" by simp
  then have gt: "int_gt (int (Suc rc)) (PInt L) = Inr True" by simp
  have "request_loop E rc s = (Inl GrabTooManyRedirectsError, s2)"
    using tr pr fr lm gt by (simp add: request_loop.simps [of E rc s])
  moreover have "dispatched s2 = dispatched s @ [a0]"
    using pr process_request_result_dispatched [of E s1] by (simp add: s1_def)
  ultimately show ?case by simp
next
  case (Suc k rc s a0 b)
  note prems = Suc.prems
  from prems(10) [rule_format, of "dispatched s @ [a0]"] obtain d hs loc where
    d: "server E (dispatched s @ [a0]) = Responds d" "code d \<in> Some ` {301, 302, 303, 307, 308}"
       "headers d = Some hs" "msg_get hs ''Location'' = Some loc" "loc \<noteq> []"
    by auto
  define s1 where "s1 = s\<lparr>dispatched := dispatched s @ [a0], received := Some (Responds d)\<rparr>"
  have tr: "transport_request E s = (Inr (), s1)"
    using transport_request_responds [OF prems(3) d(1)] by (simp add: s1_def)
  from process_request_result_responds [of s1 d ru E] prems(8) obtain s2 where
    pr: "process_request_result E s1 =
           (Inr (d\<lparr>timestamp := Some (utcnow E (length (dispatched s1)))\<rparr>), s2)"
    and px2: "proxylist s2 = proxylist s1"
    by (auto simp: s1_def)
  let ?d = "d\<lparr>timestamp := Some (utcnow E (length (dispatched s1)))\<rparr>"
  have c2: "config s2 k = config s k" if "k \<notin> {''post'', ''multipart_post'', ''method''}" for k
    using process_request_result_other [OF that, of E s1] pr by (simp add: s1_def)
  have fr: "find_redirect_url (config s2) ?d = Inr (Some loc)"
    using d prems(6,7) c2 [of "''follow_location''"] by (simp add: find_redirect_url_def)
  have lm: "config s2 ''redirect_limit'' = Some (PInt L)"
    using prems(5) c2 [of "''redirect_limit''"] by simp
  from prems(1,2) have le: "int (Suc rc) \<le> L" by linarith
  then have gt: "int_gt (int (Suc rc)) (PInt L) = Inr False" by simp
  have b2: "config s2 ''url'' = Some (PStr b)" using prems(9) c2 [of "''url''"] by simp
  from join obtain t where "urljoin E (PStr b) (PStr loc) = Inr (PStr t)" by blast
  then have "\<exists>u. make_url_absolute (urljoin E) (config s2) (PStr loc) = Inr (PStr u)"
    using b2 by (simp add: make_url_absolute_def)
  then obtain u where mu: "make_url_absolute (urljoin E) (config s2) (PStr loc) = Inr (PStr u)" ..
  have nop2: "proxylist s2 = []" using px2 prems(4) by (simp add: s1_def)
  from prepare_request_hop_succeeds [OF b2 nop2 join build, of u] obtain y s3 b' where
    pp: "prepare_request E [(''url'', PStr u)] s2 = (Inr y, s3)" and nop3: "proxylist s3 = []"
    and prep3: "prepared s3 \<noteq> None" and url3: "config s3 ''url'' = Some (PStr b')" by blast
  have hop: "request_loop E rc s = request_loop E (Suc rc) s3"
    using tr pr fr lm gt mu pp by (simp add: request_loop.simps [of E rc s])
  have c3: "config s3 k = config s2 k"
    if "k \<notin> {''url'', ''proxy'', ''proxy_userpwd'', ''proxy_type''}" for k
    using prepare_request_other [of k "[(''url'', PStr u)]" E s2] pp that by simp
  have d3: "dispatched s3 = dispatched s @ [a0]"
    using pp prepare_request_dispatched [of E "[(''url'', PStr u)]" s2]
      pr process_request_result_dispatched [of E s1] by (simp add: s1_def)
  from prep3 obtain a3 where a3: "prepared s3 = Some a3" by blast
  have srv3: "\<forall>h. length (dispatched s3) < length h \<and> length h \<le> length (dispatched s3) + (k + 1) \<longrightarrow>
            (\<exists>d hs loc. server E h = Responds d \<and> code d \<in> Some ` {301, 302, 303, 307, 308} \<and>
               headers d = Some hs \<and> msg_get hs ''Location'' = Some loc \<and> loc \<noteq> [])"
    using prems(10) d3 by simp
  have k: "k = nat L - Suc rc" using prems(1) by simp
  have rl3: "config s3 ''redirect_limit'' = Some (PInt L)"
    using c3 [of "''redirect_limit''"] lm by simp
  have fl3: "config s3 ''follow_location'' = Some fl"
    using c3 [of "''follow_location''"] c2 [of "''follow_location''"] prems(6) by simp
  have ru3: "config s3 ''reuse_cookies'' = Some ru"
    using c3 [of "''reuse_cookies''"] c2 [of "''reuse_cookies''"] prems(8) by simp
  from Suc.IH [OF k le a3 nop3 rl3 fl3 prems(7) ru3 url3 srv3]
  obtain s' where "request_loop E (Suc rc) s3 = (Inl GrabTooManyRedirectsError, s')"
    "length (dispatched s') = length (dispatched s3) + (k + 1)" by auto
  with hop d3 show ?case by simp
qed


text \<open>
  C2. Let \<open>N \<ge> 1\<close>, and let a call of \<^verbatim>\<open>request()\<close> build its first request with an effective
  config in which \<^verbatim>\<open>follow_location\<close> is enabled and \<^verbatim>\<open>redirect_limit\<close> is \<open>N - 1\<close> (no proxy
  list; \<^verbatim>\<open>urljoin\<close> and \<^verbatim>\<open>process_config\<close> accept what they are given). If the server answers
  each of the next \<open>N\<close> attempts with status 302 and a non-empty \<^verbatim>\<open>Location\<close>, the call raises
  \<^verbatim>\<open>GrabTooManyRedirectsError\<close> after exactly \<open>N\<close> attempts: the first and \<open>N - 1\<close> followed
  hops.
\<close>

theorem too_many_redirects:
  fixes E :: env and s0 :: grab and N :: nat and url_arg :: pyval and kwargs :: kwargs
  defines "kws \<equiv> (if url_arg \<noteq> PNone then dict_set ''url'' url_arg kwargs else kwargs)"
  defines "s \<equiv> snd (prepare_request E kws s0)"
  assumes "0 < N"
    and built: "fst (prepare_request E kws s0) = Inr ()"
    and limit: "config s ''redirect_limit'' = Some (PInt (int N - 1))"
    and follow: "config s ''follow_location'' = Some fl" "truthy fl"
    and reuse: "config s ''reuse_cookies'' = Some ru"
    and current: "config s ''url'' = Some (PStr b)"
    and noproxy: "proxylist s = []"
    and chain: "\<forall>h. length (dispatched s0) < length h \<and> length h \<le> length (dispatched s0) + N \<longrightarrow>
            (\<exists>d hs loc. server E h = Responds d \<and> code d = Some 302 \<and>
               headers d = Some hs \<and> msg_get hs ''Location'' = Some loc \<and> loc \<noteq> [])"
    and join: "\<forall>b r. \<exists>t. urljoin E (PStr b) (PStr r) = Inr (PStr t)"
    and build: "\<forall>cfg jar. \<exists>jar'. process_config E cfg jar = Inr jar'"
  shows "\<exists>s'. grab_request E url_arg kwargs s0 = (Inl GrabTooManyRedirectsError, s') \<and>
              length (dispatched s') = length (dispatched s0) + N"
proof -
  let ?s = "s"
  have pp: "prepare_request E kws s0 = (Inr (), ?s)"
    using built by (simp add: s_def prod_eq_iff)
  from prepare_request_prepared [OF pp] obtain a0 where a0: "prepared ?s = Some a0" by blast
  have d0: "dispatched ?s = dispatched s0"
    using prepare_request_dispatched [of E kws s0] by (simp add: s_def)
  have k: "N - 1 = nat (int N - 1) - 0" by simp
  have le: "int 0 \<le> int N - 1" using \<open>0 < N\<close> by simp
  have srv: "\<forall>h. length (dispatched ?s) < length h \<and>
               length h \<le> length (dispatched ?s) + (N - 1 + 1) \<longrightarrow>
            (\<exists>d hs loc. server E h = Responds d \<and> code d \<in> Some ` {301, 302, 303, 307, 308} \<and>
               headers d = Some hs \<and> msg_get hs ''Location'' = Some loc \<and> loc \<noteq> [])"
  proof (intro allI impI)
    fix h :: "attempt list" assume "length (dispatched ?s) < length h \<and>
               length h \<le> length (dispatched ?s) + (N - 1 + 1)"
    with d0 \<open>0 < N\<close> have "length (dispatched s0) < length h \<and> length h \<le> length (dispatched s0) + N"
      by simp
    with chain obtain d hs loc where "server E h = Responds d" "code d = Some 302"
      "headers d = Some hs" "msg_get hs ''Location'' = Some loc" "loc \<noteq> []" by blast
    then show "\<exists>d hs loc. server E h = Responds d \<and> code d \<in> Some ` {301, 302, 303, 307, 308} \<and>
               headers d = Some hs \<and> msg_get hs ''Location'' = Some loc \<and> loc \<noteq> []"
      by auto
  qed
  from request_loop_exhausts [OF k le a0 noproxy limit follow reuse current srv join build]
  obtain s' where "request_loop E 0 ?s = (Inl GrabTooManyRedirectsError, s')"
    "length (dispatched s') = length (dispatched ?s) + (N - 1 + 1)" by blast
  with pp d0 \<open>0 < N\<close> show ?thesis
    by (simp add: grab_request_def kws_def Let_def)
qed


theorem too_many_redirects_witness:
  "fst (grab_request (plain_env (\<lambda>h. Responds (redirect_to 302 ''/next'')))
          (PStr ''http://host/a'') [(''redirect_limit'', PInt 1)] (grab_init (PDict [])))
     = Inl GrabTooManyRedirectsError \<and>
   map (\<lambda>a. a_config a ''url'')
     (dispatched (snd (grab_request (plain_env (\<lambda>h. Responds (redirect_to 302 ''/next'')))
          (PStr ''http://host/a'') [(''redirect_limit'', PInt 1)] (grab_init (PDict [])))))
     = [Some (PStr ''http://host/a''), Some (PStr ''http://host/next'')]"
proof -
  define E where "E = plain_env (\<lambda>h. Responds (redirect_to 302 ''/next''))"
  define run where "run = grab_request E (PStr ''http://host/a'') [(''redirect_limit'', PInt 1)]
     (grab_init (PDict []))"
  define s where "s = snd (prepare_request E
     (dict_set ''url'' (PStr ''http://host/a'') [(''redirect_limit'', PInt 1)]) (grab_init (PDict [])))"
  have s: "fst (prepare_request E
     (dict_set ''url'' (PStr ''http://host/a'') [(''redirect_limit'', PInt 1)]) (grab_init (PDict [])))
      = Inr ()"
    "config s ''redirect_limit'' = Some (PInt (int 2 - 1))"
    "config s ''follow_location'' = Some (PBool True)"
    "config s ''reuse_cookies'' = Some (PBool True)"
    "config s ''url'' = Some (PStr ''http://host/a'')"
    "proxylist s = []"
    by (simp_all add: s_def E_def example_defs)
  have chain: "\<forall>h. length (dispatched (grab_init (PDict []))) < length h \<and>
            length h \<le> length (dispatched (grab_init (PDict []))) + 2 \<longrightarrow>
            (\<exists>d hs loc. server E h = Responds d \<and> code d = Some 302 \<and>
               headers d = Some hs \<and> msg_get hs ''Location'' = Some loc \<and> loc \<noteq> [])"
    by (simp add: E_def plain_env_def redirect_to_def ascii_lower_def)
  have join: "\<forall>b r. \<exists>t. urljoin E (PStr b) (PStr r) = Inr (PStr t)"
    by (simp add: E_def plain_env_def join_on_host_def)
  have build: "\<forall>cfg jar. \<exists>jar'. process_config E cfg jar = Inr jar'"
    by (simp add: E_def plain_env_def)
  have urls: "map (\<lambda>a. a_config a ''url'') (dispatched (snd run))
     = [Some (PStr ''http://host/a''), Some (PStr ''http://host/next'')]"
    by (simp add: run_def E_def example_defs request_loop.simps)
  from too_many_redirects [of 2 E "PStr ''http://host/a''" "[(''redirect_limit'', PInt 1)]"
      "grab_init (PDict [])" "PBool True" "PBool True" "''http://host/a''"]
    s chain join build
  have "fst run = Inl GrabTooManyRedirectsError \<and> length (dispatched (snd run)) = 2"
    by (auto simp: s_def run_def grab_init_def)
  with urls show ?thesis by (simp add: run_def E_def)
qed




section \<open>The hook-pipeline client of grab/client.py\<close>

text \<open>
  \<^verbatim>\<open>HttpClient\<close> keeps its extension handlers in \<^verbatim>\<open>self.ext_handlers\<close>, a list per hook point.
  A handler is a callable of an extension object and acts on that object's state and on
  the arguments it is given; here a handler is a function of its arguments and of the
  state \<open>'x\<close> of the extensions, which returns what it leaves behind. The request type
  \<open>'q\<close> (\<^verbatim>\<open>HttpRequest\<close>), the Document type \<open>'d\<close> and the content \<open>'r\<close> of \<^verbatim>\<open>Retry.state\<close> are
  parameters. A \<^verbatim>\<open>retry\<close> handler returns \<^verbatim>\<open>(None, None)\<close> (here \<open>None\<close>) or a replacement
  \<^verbatim>\<open>(retry, request)\<close> pair.
\<close>

record ('q, 'r, 'd, 'x) ext_handlers =
  init_retry :: "('r \<Rightarrow> 'x \<Rightarrow> bool \<times> 'r \<times> 'x) list"
  request_pre :: "('q \<Rightarrow> 'x \<Rightarrow> 'q \<times> 'x) list"
  request_cookies :: "('q \<Rightarrow> cookiejar \<Rightarrow> 'x \<Rightarrow> cookiejar \<times> 'x) list"
  retry :: "('r \<Rightarrow> 'q \<Rightarrow> 'd \<Rightarrow> 'x \<Rightarrow> ('r \<times> 'q) option \<times> 'x) list"
  response_post :: "('q \<Rightarrow> 'd \<Rightarrow> 'x \<Rightarrow> 'd \<times> 'x) list"

text \<open>
  What the call does, in order. A Document is an object that handlers change in place,
  so a Document is identified by the attempt that produced it: attempts are numbered
  from 0.
\<close>

datatype event =
    Dispatched nat
  | PostHook nat
  | RetrySignalled nat

text \<open>
  \<^verbatim>\<open>all(x(retry) for x in self.ext_handlers["init-retry"])\<close>: \<^verbatim>\<open>all\<close> stops at the first
  handler that returns a false value.
\<close>

fun run_init_retry ::
  "('r \<Rightarrow> 'x \<Rightarrow> bool \<times> 'r \<times> 'x) list \<Rightarrow> 'r \<Rightarrow> 'x \<Rightarrow> 'r \<times> 'x" where
  "run_init_retry [] r x = (r, x)"
| "run_init_retry (f # fs) r x =
     (case f r x of (ok, r', x') \<Rightarrow> if ok then run_init_retry fs r' x' else (r', x'))"

text \<open>\<^verbatim>\<open>for func in self.ext_handlers["request:pre"]: func(req)\<close>\<close>

fun run_request_pre :: "('q \<Rightarrow> 'x \<Rightarrow> 'q \<times> 'x) list \<Rightarrow> 'q \<Rightarrow> 'x \<Rightarrow> 'q \<times> 'x" where
  "run_request_pre [] q x = (q, x)"
| "run_request_pre (f # fs) q x = (case f q x of (q', x') \<Rightarrow> run_request_pre fs q' x')"

text \<open>
  \<^verbatim>\<open>
    def get_request_cookies(self, req: HttpRequest) -> CookieJar:
        jar = CookieJar()
        for func in self.ext_handlers["request_cookies"]:
            func(req, jar)
        return jar
  \<close>
\<close>

fun run_request_cookies ::
  "('q \<Rightarrow> cookiejar \<Rightarrow> 'x \<Rightarrow> cookiejar \<times> 'x) list \<Rightarrow> 'q \<Rightarrow> cookiejar \<Rightarrow> 'x \<Rightarrow> cookiejar \<times> 'x" where
  "run_request_cookies [] q jar x = (jar, x)"
| "run_request_cookies (f # fs) q jar x =
     (case f q jar x of (jar', x') \<Rightarrow> run_request_cookies fs q jar' x')"

definition get_request_cookies ::
  "('q, 'r, 'd, 'x) ext_handlers \<Rightarrow> 'q \<Rightarrow> 'x \<Rightarrow> cookiejar \<times> 'x" where
  "get_request_cookies H q x = run_request_cookies (request_cookies H) q [] x"

text \<open>
  The handler loop of \<^verbatim>\<open>process_request_result\<close>, for the Document of attempt \<open>i\<close>:
  \<^verbatim>\<open>for func in self.ext_handlers["response:post"]: func(req, doc)\<close>
\<close>

fun run_response_post ::
  "('q \<Rightarrow> 'd \<Rightarrow> 'x \<Rightarrow> 'd \<times> 'x) list \<Rightarrow> nat \<Rightarrow> 'q \<Rightarrow> 'd \<Rightarrow> 'x \<Rightarrow> event list \<Rightarrow>
     'd \<times> 'x \<times> event list" where
  "run_response_post [] i q d x tr = (d, x, tr)"
| "run_response_post (f # fs) i q d x tr =
     (case f q d x of (d', x') \<Rightarrow> run_response_post fs i q d' x' (tr @ [PostHook i]))"

text \<open>
  \<^verbatim>\<open>any((item := func(retry, req, doc)) != (None, None) for func in ...["retry"])\<close>: \<^verbatim>\<open>any\<close>
  stops at the first handler that signals retry, and \<^verbatim>\<open>item\<close> is what that handler
  returned.
\<close>

fun run_retry ::
  "('r \<Rightarrow> 'q \<Rightarrow> 'd \<Rightarrow> 'x \<Rightarrow> ('r \<times> 'q) option \<times> 'x) list \<Rightarrow> 'r \<Rightarrow> 'q \<Rightarrow> 'd \<Rightarrow> 'x \<Rightarrow>
     ('r \<times> 'q) option \<times> 'x" where
  "run_retry [] r q d x = (None, x)"
| "run_retry (f # fs) r q d x =
     (case f r q d x of
        (Some item, x') \<Rightarrow> (Some item, x')
      | (None, x') \<Rightarrow> run_retry fs r q d x')"

text \<open>
  The transport (\<^verbatim>\<open>reset\<close>, \<^verbatim>\<open>request(req, cookies)\<close>, \<^verbatim>\<open>prepare_response(req, ...)\<close> inside
  \<^verbatim>\<open>wrap_transport_error\<close>) is the parameter \<open>exchange\<close>: what attempt \<open>i\<close>, sent with the
  given request and cookies, comes to: an error raised, or the Document prepared.

  \<^verbatim>\<open>
    def process_request_result(self, req: HttpRequest) -> Document:
        doc = self.transport.prepare_response(req, document_class=self.document_class)
        for func in self.ext_handlers["response:post"]:
            func(req, doc)
        return doc
  \<close>
\<close>

definition client_process_request_result ::
  "('q, 'r, 'd, 'x) ext_handlers \<Rightarrow> nat \<Rightarrow> 'q \<Rightarrow> error + 'd \<Rightarrow> 'x \<Rightarrow> event list \<Rightarrow>
     error + ('d \<times> 'x \<times> event list)" where
  "client_process_request_result H i q answer x tr =
     (case answer of
        Inl e \<Rightarrow> Inl e
      | Inr d \<Rightarrow> Inr (run_response_post (response_post H) i q d x tr))"

text \<open>
  The \<^verbatim>\<open>while True\<close> loop of \<^verbatim>\<open>HttpClient.request\<close>. Nothing in the client bounds it: the
  retry handlers decide. The loop runs on fuel, one unit per attempt; \<open>None\<close> is a call
  that has not returned within the fuel. A call that returns gives the Document, the
  number of the attempt that produced it, the extensions' state and the events.
  \<^verbatim>\<open>
    while True:
        for func in self.ext_handlers["request:pre"]:
            func(req)
        self.transport.reset()
        self.transport.request(req, self.get_request_cookies(req))
        with self.transport.wrap_transport_error():
            doc = self.process_request_result(req)
        if any(
            ((item := func(retry, req, doc)) != (None, None)
             for func in self.ext_handlers["retry"])
        ):
            retry, req = cast(typing.Tuple[Retry, HttpRequest], item)
            continue
        return doc
  \<close>
\<close>

fun client_loop ::
  "nat \<Rightarrow> ('q, 'r, 'd, 'x) ext_handlers \<Rightarrow> (nat \<Rightarrow> 'q \<Rightarrow> cookiejar \<Rightarrow> error + 'd) \<Rightarrow>
     nat \<Rightarrow> 'r \<Rightarrow> 'q \<Rightarrow> 'x \<Rightarrow> event list \<Rightarrow>
     ((error + 'd \<times> nat) \<times> 'x \<times> event list) option" where
  "client_loop 0 H exchange i r q x tr = None"
| "client_loop (Suc fuel) H exchange i r q x tr =
     (case run_request_pre (request_pre H) q x of (q1, x1) \<Rightarrow>
      case get_request_cookies H q1 x1 of (jar, x2) \<Rightarrow>
      case client_process_request_result H i q1 (exchange i q1 jar) x2 (tr @ [Dispatched i]) of
        Inl e \<Rightarrow> Some (Inl e, x2, tr @ [Dispatched i])
      | Inr (d, x3, tr1) \<Rightarrow>
          (case run_retry (retry H) r q1 d x3 of
             (Some (r', q'), x4) \<Rightarrow>
               client_loop fuel H exchange (Suc i) r' q' x4 (tr1 @ [RetrySignalled i])
           | (None, x4) \<Rightarrow> Some (Inr (d, i), x4, tr1)))"

text \<open>
  \<^verbatim>\<open>HttpClient.request(req)\<close> for a request object (\<^verbatim>\<open>HttpRequest.create_from_mapping\<close>, which
  builds one from a URL and keyword arguments, is not among the source files):
  \<^verbatim>\<open>retry = Retry()\<close> (its state \<open>r0\<close>), the \<^verbatim>\<open>init-retry\<close> handlers, the loop.
\<close>

definition client_request ::
  "nat \<Rightarrow> ('q, 'r, 'd, 'x) ext_handlers \<Rightarrow> (nat \<Rightarrow> 'q \<Rightarrow> cookiejar \<Rightarrow> error + 'd) \<Rightarrow>
     'r \<Rightarrow> 'q \<Rightarrow> 'x \<Rightarrow> ((error + 'd \<times> nat) \<times> 'x \<times> event list) option" where
  "client_request fuel H exchange r0 q x =
     (case run_init_retry (init_retry H) r0 x of
        (r, x') \<Rightarrow> client_loop fuel H exchange 0 r q x' [])"

text \<open>The events of one attempt up to the retry decision, with \<open>k\<close> \<^verbatim>\<open>response:post\<close> handlers.\<close>

definition attempt_events :: "nat \<Rightarrow> nat \<Rightarrow> event list" where
  "attempt_events k i = Dispatched i # replicate k (PostHook i)"

text \<open>
  An example: one \<^verbatim>\<open>response:post\<close> handler that logs the Document it is given, one
  \<^verbatim>\<open>retry\<close> handler that asks for one retry, a transport that answers \<^verbatim>\<open>first\<close> and then
  \<^verbatim>\<open>second\<close>. Requests and Documents are strings, the retry state counts the retries,
  the extensions' state is the log.
\<close>

definition logging_handlers :: "(string, nat, string, string list) ext_handlers" where
  "logging_handlers =
     \<lparr>init_retry = [], request_pre = [], request_cookies = [],
      retry = [\<lambda>r q d x. if r < 1 then (Some (Suc r, q), x) else (None, x)],
      response_post = [\<lambda>q d x. (d, x @ [d])]\<rparr>"

definition two_answers :: "nat \<Rightarrow> string \<Rightarrow> cookiejar \<Rightarrow> error + string" where
  "two_answers i q jar = Inr (if i = 0 then ''first'' else ''second'')"

subsection \<open>When the response:post handlers run\<close>

lemma run_response_post_trace:
  "run_response_post fs i q d x tr = (d', x', tr') \<Longrightarrow>
     tr' = tr @ replicate (length fs) (PostHook i)"
proof (induction fs arbitrary: d x tr)
  case Nil
  then show ?case by simp
next
  case (Cons f fs)
  obtain d1 x1 where f: "f q d x = (d1, x1)" by (cases "f q d x")
  with Cons.prems have "run_response_post fs i q d1 x1 (tr @ [PostHook i]) = (d', x', tr')"
    by simp
  from Cons.IH [OF this] show ?case by (simp add: replicate_append_same)
qed

lemma client_loop_trace:
  assumes "client_loop fuel H exchange i0 r q x tr0 = Some (Inr (d, n), x', tr)"
  shows "i0 \<le> n \<and>
         tr = tr0 @ concat (map (\<lambda>i. attempt_events (length (response_post H)) i @ [RetrySignalled i])
                             [i0..<n])
                  @ attempt_events (length (response_post H)) n"
  using assms
proof (induction fuel arbitrary: i0 r q x tr0)
  case 0
  then show ?case by simp
next
  case (Suc fuel)
  let ?k = "length (response_post H)"
  obtain q1 x1 where pre: "run_request_pre (request_pre H) q x = (q1, x1)"
    by (cases "run_request_pre (request_pre H) q x")
  obtain jar x2 where ck: "get_request_cookies H q1 x1 = (jar, x2)"
    by (cases "get_request_cookies H q1 x1")
  show ?case
  proof (cases "exchange i0 q1 jar")
    case (Inl e)
    with Suc.prems pre ck show ?thesis
      by (simp add: client_process_request_result_def)
  next
    case (Inr d0)
    obtain d1 x3 tr1 where post:
      "run_response_post (response_post H) i0 q1 d0 x2 (tr0 @ [Dispatched i0]) = (d1, x3, tr1)"
      by (cases "run_response_post (response_post H) i0 q1 d0 x2 (tr0 @ [Dispatched i0])")
    from run_response_post_trace [OF post]
    have tr1: "tr1 = tr0 @ attempt_events ?k i0" by (simp add: attempt_events_def)
    obtain item x4 where rt: "run_retry (retry H) r q1 d1 x3 = (item, x4)"
      by (cases "run_retry (retry H) r q1 d1 x3")
    show ?thesis
    proof (cases item)
      case None
      with Suc.prems pre ck Inr post rt have "d = d1" "n = i0" "tr = tr1"
        by (simp_all add: client_process_request_result_def)
      with tr1 show ?thesis by simp
    next
      case (Some rq)
      obtain r' q' where rq: "rq = (r', q')" by (cases rq)
      with Some Suc.prems pre ck Inr post rt
      have "client_loop fuel H exchange (Suc i0) r' q' x4 (tr1 @ [RetrySignalled i0])
              = Some (Inr (d, n), x', tr)"
        by (simp add: client_process_request_result_def)
      from Suc.IH [OF this] have le: "Suc i0 \<le> n"
        and tr: "tr = (tr1 @ [RetrySignalled i0]) @
           concat (map (\<lambda>i. attempt_events ?k i @ [RetrySignalled i]) [Suc i0..<n])
           @ attempt_events ?k n" by simp_all
      from le have "[i0..<n] = i0 # [Suc i0..<n]" by (simp add: upt_conv_Cons)
      with tr tr1 le show ?thesis by simp
    qed
  qed
qed


text \<open>
  C5, as the code has it. \<^verbatim>\<open>process_request_result\<close> runs the \<^verbatim>\<open>response:post\<close> handlers on
  the Document of every attempt, before the \<^verbatim>\<open>retry\<close> handlers are asked about it. In a call
  that returns the Document of attempt \<open>n\<close>, the events are, for each attempt \<open>i < n\<close>: the
  dispatch, one invocation of every \<^verbatim>\<open>response:post\<close> handler on the Document of attempt
  \<open>i\<close>, the retry signal for that Document; and then the dispatch of attempt \<open>n\<close> and the
  handlers on its Document, which is returned. So the handlers have run on every Document
  for which a retry handler then signalled retry, as on the returned one.
\<close>

theorem post_hooks_every_attempt:
  assumes "client_request fuel H exchange r0 q x = Some (Inr (d, n), x', tr)"
  shows "tr = concat (map (\<lambda>i. attempt_events (length (response_post H)) i @ [RetrySignalled i])
                        [0..<n])
              @ attempt_events (length (response_post H)) n \<and>
         (\<forall>i<n. RetrySignalled i \<in> set tr \<and> Dispatched i \<in> set tr \<and>
                 (response_post H \<noteq> [] \<longrightarrow> PostHook i \<in> set tr))"
proof -
  obtain r x1 where "run_init_retry (init_retry H) r0 x = (r, x1)"
    by (cases "run_init_retry (init_retry H) r0 x")
  with assms have "client_loop fuel H exchange 0 r q x1 [] = Some (Inr (d, n), x', tr)"
    by (simp add: client_request_def)
  from client_loop_trace [OF this]
  have tr: "tr = concat (map (\<lambda>i. attempt_events (length (response_post H)) i @ [RetrySignalled i])
                        [0..<n])
              @ attempt_events (length (response_post H)) n" by simp
  have "RetrySignalled i \<in> set tr \<and> Dispatched i \<in> set tr \<and>
          (response_post H \<noteq> [] \<longrightarrow> PostHook i \<in> set tr)" if "i < n" for i
  proof -
    from that have "i \<in> set [0..<n]" by simp
    then have "set (attempt_events (length (response_post H)) i @ [RetrySignalled i]) \<subseteq> set tr"
      by (subst tr) auto
    then show ?thesis by (auto simp: attempt_events_def)
  qed
  with tr show ?thesis by blast
qed

theorem post_hooks_every_attempt_witness:
  "map_option (\<lambda>res. snd (snd res))
     (client_request 5 logging_handlers two_answers 0 ''http://host/'' [])
     = Some [Dispatched 0, PostHook 0, RetrySignalled 0, Dispatched 1, PostHook 1]"
proof -
  have run: "\<exists>x' tr. client_request 5 logging_handlers two_answers 0 ''http://host/'' []
     = Some (Inr (''second'', 1), x', tr)"
    by (simp add: client_request_def logging_handlers_def two_answers_def
        get_request_cookies_def client_process_request_result_def eval_nat_numeral)
  then obtain x' tr where r: "client_request 5 logging_handlers two_answers 0 ''http://host/'' []
     = Some (Inr (''second'', 1), x', tr)" by blast
  from post_hooks_every_attempt [OF r]
  have "tr = [Dispatched 0, PostHook 0, RetrySignalled 0, Dispatched 1, PostHook 1]"
    by (simp add: logging_handlers_def attempt_events_def)
  with r show ?thesis by simp
qed

text \<open>
  The claim as the spec words it (the handlers run only on the terminal Document, never
  on one for which retry is then signalled) fails on the example: the call returns the
  Document \<^verbatim>\<open>second\<close> of attempt 1, and the \<^verbatim>\<open>response:post\<close> handler has logged \<^verbatim>\<open>first\<close>,
  the Document of attempt 0, for which the retry handler signalled retry.
\<close>

theorem post_hooks_terminal_only_counterexample:
  "client_request 5 logging_handlers two_answers 0 ''http://host/'' []
     = Some (Inr (''second'', 1), [''first'', ''second''],
             [Dispatched 0, PostHook 0, RetrySignalled 0, Dispatched 1, PostHook 1])"
  by (simp add: client_request_def logging_handlers_def two_answers_def
        get_request_cookies_def client_process_request_result_def eval_nat_numeral)


section \<open>Cookie options of a request (grab/transport.py)\<close>

subsection \<open>The cookie manager's part\<close>

text \<open>
  Modelled from the spec: \<^verbatim>\<open>CookieManager.set\<close> and \<^verbatim>\<open>CookieManager.get_cookie_header\<close> are
  not among the source files. The spec: "name/value pairs lacking domain/path are applied
  to the target host, preferring the non-\<^verbatim>\<open>www\<close> form of the host as the assigned domain";
  "\<^verbatim>\<open>cookie_header_for(url, extra_headers)\<close> returns the \<^verbatim>\<open>Cookie:\<close> header value applicable
  to the target URL given jar contents"; lookup-for-request "matches
  domain/path/secure/expiry". A cookie set by name, value and domain is a session cookie
  for the whole host (path \<^verbatim>\<open>/\<close>, not secure, no expiry). A cookie applies to a request
  when the request's host is the cookie's domain or a subdomain of it, the request's path
  (which starts with \<^verbatim>\<open>/\<close>) is under the cookie's path, a secure cookie goes over \<^verbatim>\<open>https\<close> only, and the cookie
  has not expired. The header lists the applicable cookies as \<^verbatim>\<open>name=value\<close>, separated
  by \<^verbatim>\<open>"; "\<close>; there is no header when no cookie applies.
\<close>

definition cookies_set :: "string \<Rightarrow> string \<Rightarrow> string \<Rightarrow> cookiejar \<Rightarrow> cookiejar" where
  "cookies_set n v dmn jar =
     set_cookie \<lparr>name = n, value = v, domain = dmn, path = ''/'', expires = None,
                 secure = False\<rparr> jar"

text \<open>
  \<^verbatim>\<open>urllib.parse.urlsplit\<close> is a standard-library function, a parameter where the source
  calls it; these are the parts of its result that are read.
\<close>

record url_parts =
  scheme :: string
  hostname :: "string option"
  url_path :: string

definition domain_match :: "string \<Rightarrow> string \<Rightarrow> bool" where
  "domain_match host dmn =
     suffix (CHR ''.'' # (if prefix ''.'' dmn then drop 1 dmn else dmn)) (CHR ''.'' # host)"

definition cookie_applies :: "url_parts \<Rightarrow> int \<Rightarrow> cookie \<Rightarrow> bool" where
  "cookie_applies u now c =
     (case hostname u of
        None \<Rightarrow> False
      | Some host \<Rightarrow>
          domain_match host (domain c) \<and>
          prefix (path c) (if prefix ''/'' (url_path u) then url_path u else CHR ''/'' # url_path u) \<and>
          (secure c \<longrightarrow> scheme u = ''https'') \<and>
          (case expires c of None \<Rightarrow> True | Some t \<Rightarrow> now < t))"

fun join_with :: "string \<Rightarrow> string list \<Rightarrow> string" where
  "join_with sep [] = []"
| "join_with sep [x] = x"
| "join_with sep (x # y # ys) = x @ sep @ join_with sep (y # ys)"

definition get_cookie_header :: "url_parts \<Rightarrow> int \<Rightarrow> cookiejar \<Rightarrow> string option" where
  "get_cookie_header u now jar =
     (case filter (cookie_applies u now) jar of
        [] \<Rightarrow> None
      | cs \<Rightarrow> Some (join_with ''; '' (map (\<lambda>c. name c @ ''='' @ value c) cs)))"

subsection \<open>process_cookie_options\<close>

text \<open>
  What is outside the program: \<^verbatim>\<open>urlsplit\<close>; the cookie file (\<^verbatim>\<open>load_from_file\<close> returns the
  jar with the file's cookies loaded, or raises); the clock.
\<close>

record cookie_env =
  urlsplit :: "string \<Rightarrow> url_parts"
  load_from_file :: "pyval \<Rightarrow> cookiejar \<Rightarrow> error + cookiejar"
  time_now :: int

text \<open>
  \<^verbatim>\<open>
    for name, value in grab.config["cookies"].items():
        grab.cookies.set(name=name, value=value, domain=request_host_no_www)
  \<close>
  The \<^verbatim>\<open>cookies\<close> option maps names to values, both \<^verbatim>\<open>str\<close>; another type fails in the
  cookie manager.
\<close>

fun set_cookie_items ::
  "(pyval \<times> pyval) list \<Rightarrow> string \<Rightarrow> cookiejar \<Rightarrow> (error + unit) \<times> cookiejar" where
  "set_cookie_items [] dmn jar = (Inr (), jar)"
| "set_cookie_items ((PStr n, PStr v) # items) dmn jar =
     set_cookie_items items dmn (cookies_set n v dmn jar)"
| "set_cookie_items (_ # items) dmn jar = (Inl (PyException ''TypeError''), jar)"

text \<open>
  \<^verbatim>\<open>
    def process_cookie_options(self, grab, request_url, request_headers):
        if grab.config["cookiefile"]:
            try:
                grab.cookies.load_from_file(grab.config["cookiefile"])
            except IOError as ex:
                logging.error(ex)
        request_host = urlsplit(request_url).hostname
        if request_host:
            if request_host.startswith("www."):
                request_host_no_www = request_host[4:]
            else:
                request_host_no_www = request_host
            if grab.config["cookies"]:
                if not isinstance(grab.config["cookies"], dict):
                    raise error.GrabMisuseError("cookies option should be a dict")
                for name, value in grab.config["cookies"].items():
                    grab.cookies.set(name=name, value=value, domain=request_host_no_www)
        cookie_hdr = grab.cookies.get_cookie_header(request_url, request_headers)
        return cookie_hdr if cookie_hdr else None
  \<close>
  The result pairs the outcome with the session's cookie jar afterwards.
\<close>

definition load_cookiefile :: "cookie_env \<Rightarrow> config \<Rightarrow> cookiejar \<Rightarrow> (error + unit) \<times> cookiejar" where
  "load_cookiefile P cfg jar =
     (case cfg ''cookiefile'' of
        None \<Rightarrow> (Inl (PyException ''KeyError''), jar)
      | Some f \<Rightarrow>
          if truthy f then
            (case load_from_file P f jar of
               Inr jar' \<Rightarrow> (Inr (), jar')
             | Inl e \<Rightarrow> if e = PyException ''IOError'' then (Inr (), jar) else (Inl e, jar))
          else (Inr (), jar))"

definition set_config_cookies :: "config \<Rightarrow> string option \<Rightarrow> cookiejar \<Rightarrow> (error + unit) \<times> cookiejar" where
  "set_config_cookies cfg request_host jar =
     (case request_host of
        None \<Rightarrow> (Inr (), jar)
      | Some host \<Rightarrow>
          if host = [] then (Inr (), jar)
          else
            let request_host_no_www = (if prefix ''www.'' host then drop 4 host else host) in
            (case cfg ''cookies'' of
               None \<Rightarrow> (Inl (PyException ''KeyError''), jar)
             | Some ck \<Rightarrow>
                 if truthy ck then
                   (case ck of
                      PDict items \<Rightarrow> set_cookie_items items request_host_no_www jar
                    | _ \<Rightarrow> (Inl GrabMisuseError, jar))
                 else (Inr (), jar)))"

definition process_cookie_options ::
  "cookie_env \<Rightarrow> config \<Rightarrow> string \<Rightarrow> cookiejar \<Rightarrow> (error + string option) \<times> cookiejar" where
  "process_cookie_options P cfg request_url jar =
     (case load_cookiefile P cfg jar of
        (Inl e, jar1) \<Rightarrow> (Inl e, jar1)
      | (Inr _, jar1) \<Rightarrow>
          (case set_config_cookies cfg (hostname (urlsplit P request_url)) jar1 of
             (Inl e, jar2) \<Rightarrow> (Inl e, jar2)
           | (Inr _, jar2) \<Rightarrow>
               (case get_cookie_header (urlsplit P request_url) (time_now P) jar2 of
                  None \<Rightarrow> (Inr None, jar2)
                | Some hdr \<Rightarrow> (Inr (if hdr \<noteq> [] then Some hdr else None), jar2))))"

subsection \<open>Cookies given by name and value\<close>

definition is_str :: "pyval \<Rightarrow> bool" where
  "is_str v = (case v of PStr _ \<Rightarrow> True | _ \<Rightarrow> False)"

definition host_cookie :: "string \<Rightarrow> string \<Rightarrow> string \<Rightarrow> cookie" where
  "host_cookie n v dmn =
     \<lparr>name = n, value = v, domain = dmn, path = ''/'', expires = None, secure = False\<rparr>"

lemma set_cookie_member: "c \<in> set (set_cookie c jar)"
  by (auto simp: set_cookie_def)

lemma set_cookie_keeps:
  assumes "c \<in> set jar" "cookie_key c' = cookie_key c \<Longrightarrow> c' = c"
  shows "c \<in> set (set_cookie c' jar)"
proof (cases "cookie_key c' \<in> set (map cookie_key jar)")
  case True
  define f where "f = (\<lambda>x. if cookie_key x = cookie_key c' then c' else x)"
  have fc: "f c = c"
  proof (cases "cookie_key c = cookie_key c'")
    case True
    then have "cookie_key c' = cookie_key c" by (rule sym)
    then have eq: "c' = c" by (rule assms(2))
    have "f c = c'" unfolding f_def using True by (rule if_P)
    then show ?thesis using eq by (rule trans)
  next
    case False
    then show ?thesis unfolding f_def by (rule if_not_P)
  qed
  from assms(1) have "f c \<in> f ` set jar" by (rule imageI)
  then have "c \<in> set (map f jar)" by (simp only: fc set_map)
  moreover have "set_cookie c' jar = map f jar"
    unfolding set_cookie_def f_def using True by (simp only: if_True)
  ultimately show ?thesis by (simp only:)
next
  case False
  then have "set_cookie c' jar = jar @ [c']"
    unfolding set_cookie_def by (simp only: if_False)
  with assms(1) show ?thesis by (simp only: set_append Un_iff simp_thms)
qed

lemma set_cookie_items_ok:
  "\<forall>(k, v) \<in> set items. is_str k \<and> is_str v \<Longrightarrow> fst (set_cookie_items items dmn jar) = Inr ()"
proof (induction items arbitrary: jar)
  case Nil
  then show ?case by simp
next
  case (Cons item items)
  from Cons.prems obtain n' v' where item: "item = (PStr n', PStr v')"
    by (cases item; cases "fst item"; cases "snd item") (auto simp: is_str_def)
  with Cons show ?case by simp
qed

lemma set_cookie_items_keeps:
  assumes "c \<in> set jar"
    and "\<And>n' w. (PStr n', PStr w) \<in> set items \<Longrightarrow>
           cookie_key (host_cookie n' w dmn) = cookie_key c \<Longrightarrow> host_cookie n' w dmn = c"
  shows "c \<in> set (snd (set_cookie_items items dmn jar))"
  using assms
proof (induction items arbitrary: jar)
  case Nil
  then show ?case by simp
next
  case (Cons item items)
  have rest: "host_cookie n' w dmn = c"
    if "(PStr n', PStr w) \<in> set items" "cookie_key (host_cookie n' w dmn) = cookie_key c" for n' w
  proof (rule Cons.prems(2))
    show "(PStr n', PStr w) \<in> set (item # items)" using that(1) by simp
    show "cookie_key (host_cookie n' w dmn) = cookie_key c" by (rule that(2))
  qed
  show ?case
  proof (cases "\<exists>n v. item = (PStr n, PStr v)")
    case True
    then obtain n v where item: "item = (PStr n, PStr v)" by blast
    have "host_cookie n v dmn = c" if "cookie_key (host_cookie n v dmn) = cookie_key c"
    proof (rule Cons.prems(2))
      show "(PStr n, PStr v) \<in> set (item # items)" using item by simp
      show "cookie_key (host_cookie n v dmn) = cookie_key c" by (rule that)
    qed
    with Cons.prems(1) have "c \<in> set (set_cookie (host_cookie n v dmn) jar)"
      by (intro set_cookie_keeps)
    then have "c \<in> set (cookies_set n v dmn jar)"
      by (simp only: cookies_set_def host_cookie_def)
    then have "c \<in> set (snd (set_cookie_items items dmn (cookies_set n v dmn jar)))"
      using rest by (rule Cons.IH)
    with item show ?thesis by (simp only: set_cookie_items.simps)
  next
    case False
    then have "set_cookie_items (item # items) dmn jar = (Inl (PyException ''TypeError''), jar)"
      by (cases item; cases "fst item"; cases "snd item") auto
    with Cons.prems(1) show ?thesis by simp
  qed
qed

lemma set_cookie_items_member:
  assumes "\<forall>(k, v) \<in> set items. is_str k \<and> is_str v"
    and "distinct (map fst items)" "(PStr n, PStr v) \<in> set items"
  shows "host_cookie n v dmn \<in> set (snd (set_cookie_items items dmn jar))"
  using assms
proof (induction items arbitrary: jar)
  case Nil
  then show ?case by simp
next
  case (Cons item items)
  from Cons.prems(1) obtain n' v' where item: "item = (PStr n', PStr v')"
    by (cases item; cases "fst item"; cases "snd item") (auto simp: is_str_def)
  have strs: "\<forall>(k, v) \<in> set items. is_str k \<and> is_str v" using Cons.prems(1) by simp
  have dist: "distinct (map fst items)" using Cons.prems(2) by simp
  show ?case
  proof (cases "n' = n")
    case True
    from Cons.prems(2) item True have notin: "PStr n \<notin> fst ` set items" by simp
    have v: "v' = v"
    proof (rule ccontr)
      assume "v' \<noteq> v"
      with Cons.prems(3) item True have "(PStr n, PStr v) \<in> set items" by simp
      then have "PStr n \<in> fst ` set items" by (metis fst_conv image_eqI)
      with notin show False ..
    qed
    have "host_cookie n v dmn \<in> set (set_cookie (host_cookie n v dmn) jar)"
      by (rule set_cookie_member)
    then have "host_cookie n v dmn \<in> set (cookies_set n v dmn jar)"
      by (simp only: cookies_set_def host_cookie_def)
    moreover have "host_cookie n'' w dmn = host_cookie n v dmn"
      if "(PStr n'', PStr w) \<in> set items"
        "cookie_key (host_cookie n'' w dmn) = cookie_key (host_cookie n v dmn)" for n'' w
    proof -
      from that(2) have "n'' = n" by (simp add: host_cookie_def cookie_key_def)
      with that(1) have "PStr n \<in> fst ` set items" by (metis fst_conv image_eqI)
      with notin show ?thesis ..
    qed
    ultimately have "host_cookie n v dmn \<in>
        set (snd (set_cookie_items items dmn (cookies_set n v dmn jar)))"
      by (rule set_cookie_items_keeps)
    with True v item show ?thesis by (simp only: set_cookie_items.simps)
  next
    case False
    with Cons.prems(3) item have "(PStr n, PStr v) \<in> set items" by simp
    from Cons.IH [OF strs dist this, of "cookies_set n' v' dmn jar"] item
    show ?thesis by (simp only: set_cookie_items.simps)
  qed
qed

lemma join_with_sublist: "x \<in> set xs \<Longrightarrow> sublist x (join_with sep xs)"
proof (induction sep xs rule: join_with.induct)
  case (3 sep x' y ys)
  show ?case
  proof (cases "x = x'")
    case True
    then show ?thesis by (simp add: sublist_append_rightI)
  next
    case False
    with 3 have "sublist x (join_with sep (y # ys))" by simp
    then obtain ps ss where "join_with sep (y # ys) = ps @ x @ ss"
      by (auto simp: sublist_def)
    then have "x' @ sep @ join_with sep (y # ys) = (x' @ sep @ ps) @ x @ ss" by simp
    then show ?thesis unfolding join_with.simps sublist_def by blast
  qed
qed simp_all

lemma domain_match_www: "domain_match (''www.'' @ h) h"
proof (cases "prefix ''.'' h")
  case True
  then obtain h2 where h: "h = CHR ''.'' # h2" by (cases h) auto
  have "CHR ''.'' # ''www.'' @ h = ''.www.'' @ (CHR ''.'' # h2)" by (simp add: h)
  then have "suffix (CHR ''.'' # h2) (CHR ''.'' # ''www.'' @ h)" by (rule suffixI)
  with h show ?thesis by (simp add: domain_match_def)
next
  case False
  have "CHR ''.'' # ''www.'' @ h = ''.www'' @ (CHR ''.'' # h)" by simp
  then have "suffix (CHR ''.'' # h) (CHR ''.'' # ''www.'' @ h)" by (rule suffixI)
  with False show ?thesis by (simp add: domain_match_def)
qed

lemma domain_match_self: "domain_match h h"
proof (cases "prefix ''.'' h")
  case True
  then obtain h2 where h: "h = CHR ''.'' # h2" by (cases h) auto
  have "CHR ''.'' # h = [CHR ''.''] @ (CHR ''.'' # h2)" by (simp add: h)
  then have "suffix (CHR ''.'' # h2) (CHR ''.'' # h)" by (rule suffixI)
  with h show ?thesis by (simp add: domain_match_def)
next
  case False
  then show ?thesis by (simp add: domain_match_def)
qed

lemma host_cookie_applies:
  assumes "hostname u = Some host" "domain_match host dmn"
  shows "cookie_applies u now (host_cookie n v dmn)"
  using assms by (simp add: cookie_applies_def host_cookie_def)

lemma get_cookie_header_contains:
  assumes "c \<in> set jar" "cookie_applies u now c"
  shows "\<exists>hdr. get_cookie_header u now jar = Some hdr \<and> sublist (name c @ ''='' @ value c) hdr
            \<and> hdr \<noteq> []"
proof -
  let ?cs = "filter (cookie_applies u now) jar"
  from assms have c: "c \<in> set ?cs" by simp
  then have ne: "?cs \<noteq> []" by (metis empty_iff empty_set)
  let ?hdr = "join_with ''; '' (map (\<lambda>c. name c @ ''='' @ value c) ?cs)"
  have "get_cookie_header u now jar = Some ?hdr"
    using ne by (simp add: get_cookie_header_def split: list.splits)
  moreover have sub: "sublist (name c @ ''='' @ value c) ?hdr"
    using c by (intro join_with_sublist) (auto simp del: set_filter)
  moreover have "?hdr \<noteq> []"
  proof
    assume "?hdr = []"
    with sub have "name c @ ''='' @ value c = []" by simp
    then show False by simp
  qed
  ultimately show ?thesis by blast
qed


lemma load_cookiefile_none:
  "cfg ''cookiefile'' = Some cf \<Longrightarrow> \<not> truthy cf \<Longrightarrow> load_cookiefile P cfg jar = (Inr (), jar)"
  by (simp add: load_cookiefile_def)

lemma set_config_cookies_items:
  assumes "cfg ''cookies'' = Some (PDict items)" "items \<noteq> []" "host \<noteq> []"
  shows "set_config_cookies cfg (Some host) jar =
           set_cookie_items items (if prefix ''www.'' host then drop 4 host else host) jar"
  using assms by (simp add: set_config_cookies_def Let_def)

lemma process_cookie_options_sends:
  assumes nofile: "cfg ''cookiefile'' = Some cf" "\<not> truthy cf"
    and opt: "cfg ''cookies'' = Some (PDict items)" "items \<noteq> []"
    and strs: "\<forall>(k, v) \<in> set items. is_str k \<and> is_str v"
    and host: "hostname (urlsplit P request_url) = Some host" "host \<noteq> []"
    and c: "c \<in> set (snd (set_cookie_items items
                (if prefix ''www.'' host then drop 4 host else host) jar))"
      "domain_match host (domain c)" "path c = ''/''" "\<not> secure c" "expires c = None"
  shows "\<exists>hdr. process_cookie_options P cfg request_url jar =
           (Inr (Some hdr),
            snd (set_cookie_items items (if prefix ''www.'' host then drop 4 host else host) jar)) \<and>
           sublist (name c @ ''='' @ value c) hdr"
proof -
  let ?d = "if prefix ''www.'' host then drop 4 host else host"
  let ?jar = "snd (set_cookie_items items ?d jar)"
  have ok: "fst (set_cookie_items items ?d jar) = Inr ()"
    using strs by (rule set_cookie_items_ok)
  have sc: "set_config_cookies cfg (hostname (urlsplit P request_url)) jar = (Inr (), ?jar)"
    using set_config_cookies_items [of cfg items host jar] opt host(2) ok host(1)
    by (simp add: prod_eq_iff)
  have "cookie_applies (urlsplit P request_url) (time_now P) c"
    using host(1) c(2-5) by (simp add: cookie_applies_def)
  from get_cookie_header_contains [OF c(1) this] obtain hdr where
    hdr: "get_cookie_header (urlsplit P request_url) (time_now P) ?jar = Some hdr"
      "sublist (name c @ ''='' @ value c) hdr" "hdr \<noteq> []" by blast
  have "process_cookie_options P cfg request_url jar = (Inr (Some hdr), ?jar)"
    using load_cookiefile_none [of cfg cf P jar] nofile sc hdr(1,3)
    by (simp add: process_cookie_options_def)
  with hdr(2) show ?thesis by blast
qed

lemma process_cookie_options_jar_only:
  assumes nofile: "cfg ''cookiefile'' = Some cf" "\<not> truthy cf"
    and opt: "cfg ''cookies'' = Some PNone"
    and host: "hostname (urlsplit P request_url) = Some host"
    and c: "c \<in> set jar" "domain_match host (domain c)" "path c = ''/''" "\<not> secure c"
      "expires c = None"
  shows "\<exists>hdr. process_cookie_options P cfg request_url jar = (Inr (Some hdr), jar) \<and>
           sublist (name c @ ''='' @ value c) hdr"
proof -
  have sc: "set_config_cookies cfg (hostname (urlsplit P request_url)) jar = (Inr (), jar)"
    using opt host by (simp add: set_config_cookies_def Let_def)
  have "cookie_applies (urlsplit P request_url) (time_now P) c"
    using host c(2-5) by (simp add: cookie_applies_def)
  from get_cookie_header_contains [OF c(1) this] obtain hdr where
    hdr: "get_cookie_header (urlsplit P request_url) (time_now P) jar = Some hdr"
      "sublist (name c @ ''='' @ value c) hdr" "hdr \<noteq> []" by blast
  have "process_cookie_options P cfg request_url jar = (Inr (Some hdr), jar)"
    using load_cookiefile_none [of cfg cf P jar] nofile sc hdr(1,3)
    by (simp add: process_cookie_options_def)
  with hdr(2) show ?thesis by blast
qed

lemma host_cookie_fields:
  "name (host_cookie n v d) = n" "value (host_cookie n v d) = v" "domain (host_cookie n v d) = d"
  "path (host_cookie n v d) = ''/''" "\<not> secure (host_cookie n v d)"
  "expires (host_cookie n v d) = None"
  by (simp_all add: host_cookie_def)

text \<open>
  An example: a stand-in for \<^verbatim>\<open>urlsplit\<close> on URLs of the form \<^verbatim>\<open>scheme://host/path\<close>, no cookie
  file, and the option \<^verbatim>\<open>cookies = {"a": "1"}\<close>.
\<close>

definition split_url :: "string \<Rightarrow> url_parts" where
  "split_url u =
     (let sch = takeWhile (\<lambda>c. c \<noteq> CHR '':'') u;
          rest = drop (length sch + 3) u;
          host = takeWhile (\<lambda>c. c \<noteq> CHR ''/'') rest
      in \<lparr>scheme = sch, hostname = (if host = [] then None else Some host),
          url_path = drop (length host) rest\<rparr>)"

definition plain_cookie_env :: cookie_env where
  "plain_cookie_env = \<lparr>urlsplit = split_url, load_from_file = (\<lambda>f jar. Inr jar), time_now = 0\<rparr>"

definition cookie_a1 :: config where
  "cookie_a1 = [''cookiefile'' \<mapsto> PNone, ''cookies'' \<mapsto> PDict [(PStr ''a'', PStr ''1'')]]"

text \<open>
  C9. A cookie configured by name and value only (an item of the \<^verbatim>\<open>cookies\<close> option, both
  \<^verbatim>\<open>str\<close>, no cookie file): the request to the host \<^verbatim>\<open>www.h\<close> stores it in the session's jar
  with the domain \<^verbatim>\<open>h\<close> and the \<^verbatim>\<open>Cookie\<close> header of that request contains \<^verbatim>\<open>name=value\<close>; the
  header of a subsequent request to the host \<^verbatim>\<open>h\<close> contains it too, from the option again
  and, with the option cleared, from the jar alone.
\<close>

theorem cookie_broadcast:
  assumes nofile: "cfg ''cookiefile'' = Some cf" "\<not> truthy cf"
    and opt: "cfg ''cookies'' = Some (PDict items)"
    and strs: "\<forall>(k, v) \<in> set items. is_str k \<and> is_str v"
    and dist: "distinct (map fst items)"
    and item: "(PStr n, PStr v) \<in> set items"
    and host1: "hostname (urlsplit P url1) = Some (''www.'' @ h)"
    and host2: "hostname (urlsplit P url2) = Some h" "h \<noteq> []"
  shows "\<exists>hdr1 jar1 hdr2 jar2 hdr3.
           process_cookie_options P cfg url1 jar = (Inr (Some hdr1), jar1) \<and>
           host_cookie n v h \<in> set jar1 \<and> sublist (n @ ''='' @ v) hdr1 \<and>
           process_cookie_options P cfg url2 jar1 = (Inr (Some hdr2), jar2) \<and>
           sublist (n @ ''='' @ v) hdr2 \<and>
           process_cookie_options P (cfg(''cookies'' \<mapsto> PNone)) url2 jar1
             = (Inr (Some hdr3), jar1) \<and>
           sublist (n @ ''='' @ v) hdr3"
proof -
  let ?c = "host_cookie n v h"
  from item have ne: "items \<noteq> []" by auto
  define jar1 where "jar1 = snd (set_cookie_items items h jar)"
  have www: "(if prefix ''www.'' (''www.'' @ h) then drop 4 (''www.'' @ h) else ''www.'' @ h) = h"
    by simp
  have c1: "?c \<in> set jar1"
    unfolding jar1_def using strs dist item by (rule set_cookie_items_member)
  have "\<exists>hdr. process_cookie_options P cfg url1 jar =
           (Inr (Some hdr),
            snd (set_cookie_items items
              (if prefix ''www.'' (''www.'' @ h) then drop 4 (''www.'' @ h) else ''www.'' @ h) jar)) \<and>
           sublist (name ?c @ ''='' @ value ?c) hdr"
  proof (rule process_cookie_options_sends [of cfg cf items P url1 "''www.'' @ h" ?c jar, OF nofile opt ne strs host1])
    show "''www.'' @ h \<noteq> []" by simp
    show "?c \<in> set (snd (set_cookie_items items
        (if prefix ''www.'' (''www.'' @ h) then drop 4 (''www.'' @ h) else ''www.'' @ h) jar))"
      using c1 unfolding jar1_def by (simp only: www)
    show "domain_match (''www.'' @ h) (domain ?c)"
      by (simp only: host_cookie_fields domain_match_www)
  qed (rule host_cookie_fields)+
  then obtain hdr1 where first:
    "process_cookie_options P cfg url1 jar = (Inr (Some hdr1), jar1)"
    "sublist (n @ ''='' @ v) hdr1"
    unfolding jar1_def by (auto simp only: www host_cookie_fields)
  let ?d2 = "if prefix ''www.'' h then drop 4 h else h"
  define jar2 where "jar2 = snd (set_cookie_items items ?d2 jar1)"
  have c2: "?c \<in> set jar2"
    unfolding jar2_def using c1
  proof (rule set_cookie_items_keeps)
    fix n' w
    assume m: "(PStr n', PStr w) \<in> set items"
      and k: "cookie_key (host_cookie n' w ?d2) = cookie_key ?c"
    from k have "n' = n" "?d2 = h"
      by (simp_all only: cookie_key_def host_cookie_fields prod.inject)
    moreover from dist m item \<open>n' = n\<close> have "PStr w = PStr v"
      by (metis eq_key_imp_eq_value)
    ultimately show "host_cookie n' w ?d2 = ?c" by simp
  qed
  have "\<exists>hdr. process_cookie_options P cfg url2 jar1 =
           (Inr (Some hdr), snd (set_cookie_items items ?d2 jar1)) \<and>
           sublist (name ?c @ ''='' @ value ?c) hdr"
  proof (rule process_cookie_options_sends [of cfg cf items P url2 h ?c jar1, OF nofile opt ne strs host2])
    show "?c \<in> set (snd (set_cookie_items items ?d2 jar1))"
      using c2 unfolding jar2_def .
    show "domain_match h (domain ?c)" by (simp only: host_cookie_fields domain_match_self)
  qed (rule host_cookie_fields)+
  then obtain hdr2 where second:
    "process_cookie_options P cfg url2 jar1 = (Inr (Some hdr2), jar2)"
    "sublist (n @ ''='' @ v) hdr2"
    unfolding jar2_def by (auto simp only: host_cookie_fields)
  have "\<exists>hdr. process_cookie_options P (cfg(''cookies'' \<mapsto> PNone)) url2 jar1
           = (Inr (Some hdr), jar1) \<and> sublist (name ?c @ ''='' @ value ?c) hdr"
  proof (rule process_cookie_options_jar_only [of "cfg(''cookies'' \<mapsto> PNone)" cf P url2 h ?c jar1, OF _ nofile(2) _ host2(1) c1])
    show "(cfg(''cookies'' \<mapsto> PNone)) ''cookiefile'' = Some cf" using nofile(1) by simp
    show "(cfg(''cookies'' \<mapsto> PNone)) ''cookies'' = Some PNone" by simp
    show "domain_match h (domain ?c)" by (simp only: host_cookie_fields domain_match_self)
  qed (rule host_cookie_fields)+
  then obtain hdr3 where third:
    "process_cookie_options P (cfg(''cookies'' \<mapsto> PNone)) url2 jar1 = (Inr (Some hdr3), jar1)"
    "sublist (n @ ''='' @ v) hdr3"
    by (auto simp only: host_cookie_fields)
  from first c1 second third show ?thesis by blast
qed


theorem cookie_broadcast_witness:
  "process_cookie_options plain_cookie_env cookie_a1 ''http://www.example.com/'' []
     = (Inr (Some ''a=1''), [host_cookie ''a'' ''1'' ''example.com'']) \<and>
   process_cookie_options plain_cookie_env cookie_a1 ''http://example.com/''
       [host_cookie ''a'' ''1'' ''example.com'']
     = (Inr (Some ''a=1''), [host_cookie ''a'' ''1'' ''example.com'']) \<and>
   process_cookie_options plain_cookie_env (cookie_a1(''cookies'' \<mapsto> PNone)) ''http://example.com/''
       [host_cookie ''a'' ''1'' ''example.com'']
     = (Inr (Some ''a=1''), [host_cookie ''a'' ''1'' ''example.com''])"
proof -
  have hosts:
    "hostname (urlsplit plain_cookie_env ''http://www.example.com/'') = Some (''www.'' @ ''example.com'')"
    "hostname (urlsplit plain_cookie_env ''http://example.com/'') = Some ''example.com''"
    by (simp_all add: plain_cookie_env_def split_url_def)
  have cfg: "cookie_a1 ''cookiefile'' = Some PNone" "\<not> truthy PNone"
    "cookie_a1 ''cookies'' = Some (PDict [(PStr ''a'', PStr ''1'')])"
    "\<forall>(k, v) \<in> set [(PStr ''a'', PStr ''1'')]. is_str k \<and> is_str v"
    "distinct (map fst [(PStr ''a'', PStr ''1'')])"
    "(PStr ''a'', PStr ''1'') \<in> set [(PStr ''a'', PStr ''1'')]"
    by (simp_all add: cookie_a1_def is_str_def)
  have "''example.com'' \<noteq> []" by simp
  from cookie_broadcast [OF cfg hosts this, of "[]"]
  obtain hdr1 jar1 hdr2 jar2 hdr3 where run:
    "process_cookie_options plain_cookie_env cookie_a1 ''http://www.example.com/'' []
       = (Inr (Some hdr1), jar1)"
    "process_cookie_options plain_cookie_env cookie_a1 ''http://example.com/'' jar1
       = (Inr (Some hdr2), jar2)"
    "process_cookie_options plain_cookie_env (cookie_a1(''cookies'' \<mapsto> PNone))
       ''http://example.com/'' jar1 = (Inr (Some hdr3), jar1)"
    by blast
  have first: "process_cookie_options plain_cookie_env cookie_a1 ''http://www.example.com/'' []
     = (Inr (Some ''a=1''), [host_cookie ''a'' ''1'' ''example.com''])"
    by (simp add: process_cookie_options_def load_cookiefile_def set_config_cookies_def
        cookie_a1_def plain_cookie_env_def split_url_def cookies_set_def set_cookie_def
        get_cookie_header_def cookie_applies_def domain_match_def host_cookie_def
        suffix_to_prefix)
  with run(1) have jar1: "jar1 = [host_cookie ''a'' ''1'' ''example.com'']" by simp
  have "process_cookie_options plain_cookie_env cookie_a1 ''http://example.com/''
       [host_cookie ''a'' ''1'' ''example.com'']
     = (Inr (Some ''a=1''), [host_cookie ''a'' ''1'' ''example.com''])"
    by (simp add: process_cookie_options_def load_cookiefile_def set_config_cookies_def
        cookie_a1_def plain_cookie_env_def split_url_def cookies_set_def set_cookie_def
        get_cookie_header_def cookie_applies_def domain_match_def host_cookie_def
        suffix_to_prefix cookie_key_def)
  moreover have "process_cookie_options plain_cookie_env (cookie_a1(''cookies'' \<mapsto> PNone))
       ''http://example.com/'' [host_cookie ''a'' ''1'' ''example.com'']
     = (Inr (Some ''a=1''), [host_cookie ''a'' ''1'' ''example.com''])"
    by (simp add: process_cookie_options_def load_cookiefile_def set_config_cookies_def
        cookie_a1_def plain_cookie_env_def split_url_def
        get_cookie_header_def cookie_applies_def domain_match_def host_cookie_def
        suffix_to_prefix)
  ultimately show ?thesis using first run jar1 by simp
qed

end
